theory Spec2Isabelle
  imports Complex_Main "HOL-Library.Sublist" "HOL-Library.Char_ord" "HOL-Library.List_Lexorder"
begin

section \<open>Values of the platform\<close>

text \<open>
  Thrown values. \<open>Error m\<close> is \<^verbatim>\<open>new Error(m)\<close>; \<open>SyntaxError m\<close> is what
  \<^verbatim>\<open>JSON.parse\<close> throws, \<open>TypeError m\<close> what a call of a missing method throws;
  \<open>Thrown s\<close> is a thrown value that is not an error object, given by its string
  conversion. \<open>String_of e\<close> is \<^verbatim>\<open>String(e)\<close>: for an error object its name, followed
  by a colon and the message when the message is not empty.
\<close>

datatype exn = Error string | SyntaxError string | TypeError string | Thrown string

definition named :: "string \<Rightarrow> string \<Rightarrow> string" where
  "named nm m = (if m = [] then nm else nm @ '': '' @ m)"

fun String_of :: "exn \<Rightarrow> string" where
  "String_of (Error m) = named ''Error'' m"
| "String_of (SyntaxError m) = named ''SyntaxError'' m"
| "String_of (TypeError m) = named ''TypeError'' m"
| "String_of (Thrown s) = s"

text \<open>
  A JavaScript number: a finite value (every finite double is a rational), or one of the
  three non-finite values.
\<close>

datatype jsnum = Num rat | NaN | PosInf | NegInf

fun truthy_num :: "jsnum \<Rightarrow> bool" where
  "truthy_num (Num q) = (q \<noteq> 0)"
| "truthy_num NaN = False"
| "truthy_num PosInf = True"
| "truthy_num NegInf = True"

fun isFinite :: "jsnum \<Rightarrow> bool" where
  "isFinite (Num q) = True"
| "isFinite NaN = False"
| "isFinite PosInf = False"
| "isFinite NegInf = False"

text \<open>A non-empty string is truthy.\<close>

definition truthy_str :: "string \<Rightarrow> bool" where
  "truthy_str s = (s \<noteq> [])"

text \<open>\<^verbatim>\<open>ToIntegerOrInfinity\<close> on a finite number: truncation towards zero.\<close>

definition trunc :: "rat \<Rightarrow> int" where
  "trunc q = (if q < 0 then - \<lfloor>- q\<rfloor> else \<lfloor>q\<rfloor>)"

text \<open>
  \<^verbatim>\<open>xs.slice(start)\<close> with one argument: a negative start counts from the end, and
  either way the start is clamped to the array.
\<close>

definition slice_from :: "int \<Rightarrow> 'a list \<Rightarrow> 'a list" where
  "slice_from start xs =
     (let len = int (length xs);
          k = (if start < 0 then max (len + start) 0 else min start len)
      in drop (nat k) xs)"

subsection \<open>Strings\<close>

text \<open>
  \<^verbatim>\<open>String.prototype.toLowerCase\<close> belongs to the platform and maps every cased
  character of Unicode. The handlers below take it as a parameter \<open>toLowerCase\<close>, so
  what is proved of them holds for the platform's function. \<open>ascii_toLowerCase\<close> is what
  that function does on ASCII text; it is used on the concrete inputs only.
\<close>

definition ascii_lower_char :: "char \<Rightarrow> char" where
  "ascii_lower_char c =
     (let n = (of_char c :: nat) in if 65 \<le> n \<and> n \<le> 90 then char_of (n + 32) else c)"

definition ascii_toLowerCase :: "string \<Rightarrow> string" where
  "ascii_toLowerCase s = map ascii_lower_char s"

text \<open>\<^verbatim>\<open>s.includes(g)\<close>: \<open>g\<close> occurs in \<open>s\<close> as a contiguous substring.\<close>

fun str_includes :: "string \<Rightarrow> string \<Rightarrow> bool" where
  "str_includes [] g = (g = [])"
| "str_includes (c # cs) g = (prefix g (c # cs) \<or> str_includes cs g)"

text \<open>\<^verbatim>\<open>s.split('\n')\<close> and \<^verbatim>\<open>lines.join('\n')\<close>.\<close>

fun split_nl :: "string \<Rightarrow> string list" where
  "split_nl [] = [[]]"
| "split_nl (c # cs) =
     (if c = CHR 0x0A then [] # split_nl cs
      else (case split_nl cs of [] \<Rightarrow> [[c]] | l # ls \<Rightarrow> (c # l) # ls))"

fun join_nl :: "string list \<Rightarrow> string" where
  "join_nl [] = []"
| "join_nl [l] = l"
| "join_nl (l # m # ls) = l @ CHR 0x0A # join_nl (m # ls)"

subsection \<open>JSON\<close>

text \<open>
  JSON values, with the numbers the program writes (times and HTTP statuses: integers,
  far below the size at which \<^verbatim>\<open>JSON.stringify\<close> changes to the exponent form).
  Object members keep their insertion order, as \<^verbatim>\<open>JSON.stringify\<close> prints them.
\<close>

datatype json =
    JNull
  | JBool bool
  | JNum int
  | JStr string
  | JArr "json list"
  | JObj "(string \<times> json) list"

fun digits :: "nat \<Rightarrow> string" where
  "digits n = (if n < 10 then [char_of (48 + n)] else digits (n div 10) @ [char_of (48 + n mod 10)])"

definition show_int :: "int \<Rightarrow> string" where
  "show_int i = (if i < 0 then CHR ''-'' # digits (nat (- i)) else digits (nat i))"

text \<open>
  String escapes of \<^verbatim>\<open>JSON.stringify\<close>: the quote and the backslash, the short
  escapes of backspace, tab, newline, form feed and carriage return, and
  \<^verbatim>\<open>\u00XX\<close> with lower-case hexadecimal digits for every other control character
  below \<open>0x20\<close>. Every other character stands for itself.
\<close>

definition hex_digit :: "nat \<Rightarrow> char" where
  "hex_digit n = (if n < 10 then char_of (48 + n) else char_of (87 + n))"

definition escape_char :: "char \<Rightarrow> string" where
  "escape_char c =
     (let n = (of_char c :: nat)
      in if c = CHR 0x22 then [CHR 0x5C, CHR 0x22]
         else if c = CHR 0x5C then [CHR 0x5C, CHR 0x5C]
         else if n = 8 then [CHR 0x5C, CHR ''b'']
         else if n = 9 then [CHR 0x5C, CHR ''t'']
         else if n = 10 then [CHR 0x5C, CHR ''n'']
         else if n = 12 then [CHR 0x5C, CHR ''f'']
         else if n = 13 then [CHR 0x5C, CHR ''r'']
         else if n < 32 then [CHR 0x5C, CHR ''u'', CHR ''0'', CHR ''0'', hex_digit (n div 16), hex_digit (n mod 16)]
         else [c])"

definition quote :: "string \<Rightarrow> string" where
  "quote s = CHR 0x22 # concat (map escape_char s) @ [CHR 0x22]"

fun commas :: "string list \<Rightarrow> string" where
  "commas [] = []"
| "commas [l] = l"
| "commas (l # m # ls) = l @ CHR '','' # commas (m # ls)"

text \<open>\<^verbatim>\<open>JSON.stringify(v)\<close>, the compact rendering.\<close>

fun stringify :: "json \<Rightarrow> string" where
  "stringify JNull = ''null''"
| "stringify (JBool b) = (if b then ''true'' else ''false'')"
| "stringify (JNum i) = show_int i"
| "stringify (JStr s) = quote s"
| "stringify (JArr vs) = ''['' @ commas (map stringify vs) @ '']''"
| "stringify (JObj ms) =
     ''{'' @ commas (map (\<lambda>(k, v). quote k @ '':'' @ stringify v) ms) @ ''}''"

section \<open>The artifact store: \<^verbatim>\<open>src/agent.ts\<close>\<close>

text \<open>
  The file system as the retrieval code reads it: a directory path leads to the entries of
  that directory, in the order \<^verbatim>\<open>readdirSync\<close> lists them, each a file name with its
  UTF-8 content. Run directories are flat (\<^verbatim>\<open>runTest\<close> writes no subdirectory) and hold
  regular files only. Run identifiers and file names are taken as \<^verbatim>\<open>timestampId\<close> and
  \<^verbatim>\<open>runTest\<close> produce them, plain names without a separator and without a \<^verbatim>\<open>.\<close> or
  \<^verbatim>\<open>..\<close> segment: on these \<^verbatim>\<open>path.resolve\<close> and \<^verbatim>\<open>path.join\<close> only concatenate.
  Paths are written relative to the working directory.
\<close>

type_synonym dir = "(string \<times> string) list"
type_synonym fs = "string \<rightharpoonup> dir"

text \<open>\<^verbatim>\<open>path.resolve('runs', runId)\<close>, relative to the working directory.\<close>

definition resolve_runs :: "string \<Rightarrow> string" where
  "resolve_runs runId = ''runs/'' @ runId"

text \<open>\<^verbatim>\<open>path.join(dir, file)\<close> and \<^verbatim>\<open>path.basename(p)\<close>.\<close>

definition path_join :: "string \<Rightarrow> string \<Rightarrow> string" where
  "path_join d f = d @ ''/'' @ f"

definition basename :: "string \<Rightarrow> string" where
  "basename p = rev (takeWhile (\<lambda>c. c \<noteq> CHR ''/'') (rev p))"

text \<open>\<^verbatim>\<open>fs.existsSync(path.join(dir, file))\<close> and \<^verbatim>\<open>fs.readFileSync(..., 'utf8')\<close>.\<close>

definition existsSync :: "fs \<Rightarrow> string \<Rightarrow> string \<Rightarrow> bool" where
  "existsSync fs d f = (case fs d of None \<Rightarrow> False | Some es \<Rightarrow> f \<in> set (map fst es))"

definition readFileSync :: "fs \<Rightarrow> string \<Rightarrow> string \<Rightarrow> exn + string" where
  "readFileSync fs d f =
     (case fs d of
        None \<Rightarrow> Inl (Error (''ENOENT: '' @ path_join d f))
      | Some es \<Rightarrow>
          (case map_of es f of
             None \<Rightarrow> Inl (Error (''ENOENT: '' @ path_join d f))
           | Some content \<Rightarrow> Inr content))"

record ArtifactIndex =
  idx_runId :: string
  idx_artifactsDir :: string
  screenshots :: "string list"
  logs_console :: "string option"
  logs_network :: "string option"
  logs_actions :: "string option"
  trace :: "string option"

definition ensureRunDir :: "fs \<Rightarrow> string \<Rightarrow> exn + string" where
  "ensureRunDir fs runId =
     (let d = resolve_runs runId
      in if fs d = None then Inl (Error (''Run not found: '' @ runId)) else Inr d)"

text \<open>
  \<^verbatim>\<open>buildArtifactIndex\<close>. \<^verbatim>\<open>readdirSync\<close> throws on a missing directory;
  \<^verbatim>\<open>sort()\<close> orders the names by their code units.
\<close>

definition buildArtifactIndex :: "fs \<Rightarrow> string \<Rightarrow> exn + ArtifactIndex" where
  "buildArtifactIndex fs artifactsDir =
     (case fs artifactsDir of
        None \<Rightarrow> Inl (Error (''ENOENT: '' @ artifactsDir))
      | Some es \<Rightarrow>
          (let files = map fst es
           in Inr \<lparr> idx_runId = basename artifactsDir,
                    idx_artifactsDir = artifactsDir,
                    screenshots = sort (filter (\<lambda>f. suffix ''.png'' f) files),
                    logs_console = (if ''console.log'' \<in> set files then Some ''console.log'' else None),
                    logs_network = (if ''network.log'' \<in> set files then Some ''network.log'' else None),
                    logs_actions = (if ''actions.json'' \<in> set files then Some ''actions.json'' else None),
                    trace = (if ''trace.zip'' \<in> set files then Some ''trace.zip'' else None) \<rparr>))"

definition json_opt :: "string option \<Rightarrow> json" where
  "json_opt v = (case v of None \<Rightarrow> JNull | Some s \<Rightarrow> JStr s)"

definition index_json :: "ArtifactIndex \<Rightarrow> json" where
  "index_json ix =
     JObj [(''runId'', JStr (idx_runId ix)),
           (''artifactsDir'', JStr (idx_artifactsDir ix)),
           (''screenshots'', JArr (map JStr (screenshots ix))),
           (''logs'', JObj [(''console'', json_opt (logs_console ix)),
                            (''network'', json_opt (logs_network ix)),
                            (''actions'', json_opt (logs_actions ix))]),
           (''trace'', json_opt (trace ix))]"

definition error_json :: "string \<Rightarrow> json" where
  "error_json m = JObj [(''error'', JStr m)]"

text \<open>
  \<^verbatim>\<open>Array.isArray(parsed) ? parsed : parsed?.actions ?? []\<close>: the value bound to
  \<^verbatim>\<open>items\<close>, which is an array unless the file holds an object whose \<^verbatim>\<open>actions\<close>
  member is something else.
\<close>

fun items_of :: "json \<Rightarrow> json" where
  "items_of (JArr vs) = JArr vs"
| "items_of (JObj ms) =
     (case map_of ms ''actions'' of None \<Rightarrow> JArr [] | Some JNull \<Rightarrow> JArr [] | Some v \<Rightarrow> v)"
| "items_of v = JArr []"

text \<open>
  \<^verbatim>\<open>items.filter(x => JSON.stringify(x).toLowerCase().includes(g))\<close> and
  \<^verbatim>\<open>items.slice(start)\<close> on such a value: only arrays have \<^verbatim>\<open>filter\<close>, arrays
  and strings have \<^verbatim>\<open>slice\<close>.
\<close>

fun items_filter :: "(string \<Rightarrow> string) \<Rightarrow> string \<Rightarrow> json \<Rightarrow> exn + json" where
  "items_filter toLowerCase g (JArr vs) =
     Inr (JArr (filter (\<lambda>x. str_includes (toLowerCase (stringify x)) g) vs))"
| "items_filter toLowerCase g v = Inl (TypeError ''items.filter is not a function'')"

fun items_slice :: "int \<Rightarrow> json \<Rightarrow> exn + json" where
  "items_slice start (JArr vs) = Inr (JArr (slice_from start vs))"
| "items_slice start (JStr s) = Inr (JStr (slice_from start s))"
| "items_slice start v = Inl (TypeError ''items.slice is not a function'')"

record args =
  runId :: string
  kind :: string
  name :: "string option"
  grep :: "string option"
  limit :: "jsnum option"

text \<open>
  \<^verbatim>\<open>args.limit && Number.isFinite(args.limit) ? Number(args.limit) : undefined\<close>,
  followed by the test \<^verbatim>\<open>if (limit)\<close>: the limit that takes effect.
\<close>

definition limit_of :: "jsnum option \<Rightarrow> rat option" where
  "limit_of l =
     (case l of
        None \<Rightarrow> None
      | Some n \<Rightarrow> (if truthy_num n \<and> isFinite n then (case n of Num q \<Rightarrow> Some q | _ \<Rightarrow> None) else None))"

text \<open>\<^verbatim>\<open>args.grep?.toLowerCase()\<close>, followed by \<^verbatim>\<open>if (grep)\<close>.\<close>

definition grep_of :: "(string \<Rightarrow> string) \<Rightarrow> string option \<Rightarrow> string option" where
  "grep_of toLowerCase g =
     (case g of
        None \<Rightarrow> None
      | Some s \<Rightarrow> (if truthy_str (toLowerCase s) then Some (toLowerCase s) else None))"

text \<open>
  \<^verbatim>\<open>handleGetArtifact\<close>. \<open>Inl e\<close>: the call throws \<open>e\<close> (the promise rejects);
  \<open>Inr s\<close>: it returns the string \<open>s\<close>. \<open>parse\<close> is \<^verbatim>\<open>JSON.parse\<close> and
  \<open>toLowerCase\<close> the method of that name, both of the platform.
\<close>

definition handleGetArtifact ::
  "(string \<Rightarrow> exn + json) \<Rightarrow> (string \<Rightarrow> string) \<Rightarrow> fs \<Rightarrow> args \<Rightarrow> exn + string" where
  "handleGetArtifact parse toLowerCase fs a =
     (case ensureRunDir fs (runId a) of
        Inl e \<Rightarrow> Inl e
      | Inr d \<Rightarrow>
          if kind a = ''index'' then
            (case buildArtifactIndex fs d of
               Inl e \<Rightarrow> Inl e
             | Inr ix \<Rightarrow> Inr (stringify (index_json ix)))
          else if kind a = ''screenshot'' then
            (case name a of
               None \<Rightarrow> Inr (stringify (error_json ''name is required for screenshot''))
             | Some n \<Rightarrow>
                 if \<not> truthy_str n then Inr (stringify (error_json ''name is required for screenshot''))
                 else if \<not> existsSync fs d (n @ ''.png'') then Inr (stringify (error_json ''screenshot not found''))
                 else Inr (stringify (JObj [(''path'', JStr (path_join d (n @ ''.png'')))])))
          else if kind a = ''console'' \<or> kind a = ''network'' \<or> kind a = ''actions'' then
            (let fileName = (if kind a = ''console'' then ''console.log''
                             else if kind a = ''network'' then ''network.log'' else ''actions.json'')
             in if \<not> existsSync fs d fileName then Inr (stringify (error_json ''log not found''))
                else if kind a = ''actions'' then
                  (case readFileSync fs d fileName of
                     Inl e \<Rightarrow> Inl e
                   | Inr content \<Rightarrow>
                       (case parse content of
                          Inl e \<Rightarrow> Inl e
                        | Inr parsed \<Rightarrow>
                            (case (case grep_of toLowerCase (grep a) of
                                     None \<Rightarrow> Inr (items_of parsed)
                                   | Some g \<Rightarrow> items_filter toLowerCase g (items_of parsed)) of
                               Inl e \<Rightarrow> Inl e
                             | Inr items \<Rightarrow>
                                 (case (case limit_of (limit a) of
                                          None \<Rightarrow> Inr items
                                        | Some q \<Rightarrow> items_slice (trunc (- q)) items) of
                                    Inl e \<Rightarrow> Inl e
                                  | Inr items' \<Rightarrow> Inr (stringify items')))))
                else
                  (case readFileSync fs d fileName of
                     Inl e \<Rightarrow> Inl e
                   | Inr content \<Rightarrow>
                       (let lines = split_nl content;
                            lines1 = (case grep_of toLowerCase (grep a) of
                                        None \<Rightarrow> lines
                                      | Some g \<Rightarrow> filter (\<lambda>l. str_includes (toLowerCase l) g) lines);
                            lines2 = (case limit_of (limit a) of
                                        None \<Rightarrow> lines1
                                      | Some q \<Rightarrow> slice_from (trunc (- q)) lines1)
                        in Inr (join_nl lines2))))
          else if kind a = ''trace'' then
            (if \<not> existsSync fs d ''trace.zip'' then Inr (stringify (error_json ''trace not found''))
             else Inr (stringify (JObj [(''path'', JStr (path_join d ''trace.zip''))])))
          else Inr (stringify (error_json ''invalid kind'')))"

subsection \<open>The HTTP route \<^verbatim>\<open>GET /runs/:runId/log/:kind\<close>\<close>

text \<open>
  The response of the route: a status code with a JSON body (\<^verbatim>\<open>res.json\<close>) or a
  plain-text body (\<^verbatim>\<open>res.type('text/plain').send\<close>). \<open>toNumber\<close> is
  \<^verbatim>\<open>Number(...)\<close> on a query string; the \<^verbatim>\<open>catch\<close> of the handler turns every
  throw into a 500 response.
\<close>

datatype body = JsonBody json | TextBody string

type_synonym response = "nat \<times> body"

definition query_limit :: "(string \<Rightarrow> jsnum) \<Rightarrow> string option \<Rightarrow> jsnum option" where
  "query_limit toNumber q =
     (case q of None \<Rightarrow> None | Some s \<Rightarrow> (if truthy_str s then Some (toNumber s) else None))"

definition query_grep :: "(string \<Rightarrow> string) \<Rightarrow> string option \<Rightarrow> string option" where
  "query_grep toLowerCase g =
     (case g of None \<Rightarrow> None | Some s \<Rightarrow> (if truthy_str s then Some (toLowerCase s) else None))"

definition logRoute ::
  "(string \<Rightarrow> exn + json) \<Rightarrow> (string \<Rightarrow> string) \<Rightarrow> (string \<Rightarrow> jsnum) \<Rightarrow> fs \<Rightarrow> string \<Rightarrow> string
     \<Rightarrow> string option \<Rightarrow> string option \<Rightarrow> response" where
  "logRoute parse toLowerCase toNumber fs rid knd qgrep qlimit =
     (case
        (case ensureRunDir fs rid of
           Inl e \<Rightarrow> Inl e
         | Inr d \<Rightarrow>
             if \<not> (knd = ''console'' \<or> knd = ''network'' \<or> knd = ''actions'')
             then Inr (400, JsonBody (error_json ''invalid kind''))
             else
               (let fileName = (if knd = ''console'' then ''console.log''
                                else if knd = ''network'' then ''network.log'' else ''actions.json'')
                in if \<not> existsSync fs d fileName then Inr (404, JsonBody (error_json ''log not found''))
                   else
                     (case readFileSync fs d fileName of
                        Inl e \<Rightarrow> Inl e
                      | Inr content \<Rightarrow>
                          if knd = ''actions'' then
                            (case parse content of
                               Inl e \<Rightarrow> Inl e
                             | Inr parsed \<Rightarrow>
                                 (case (case query_grep toLowerCase qgrep of
                                          None \<Rightarrow> Inr (items_of parsed)
                                        | Some g \<Rightarrow> items_filter toLowerCase g (items_of parsed)) of
                                    Inl e \<Rightarrow> Inl e
                                  | Inr items \<Rightarrow>
                                      (case (case limit_of (query_limit toNumber qlimit) of
                                               None \<Rightarrow> Inr items
                                             | Some q \<Rightarrow> items_slice (trunc (- q)) items) of
                                         Inl e \<Rightarrow> Inl e
                                       | Inr items' \<Rightarrow> Inr (200, JsonBody items'))))
                          else
                            (let lines = split_nl content;
                                 lines1 = (case query_grep toLowerCase qgrep of
                                             None \<Rightarrow> lines
                                           | Some g \<Rightarrow> filter (\<lambda>l. str_includes (toLowerCase l) g) lines);
                                 lines2 = (case limit_of (query_limit toNumber qlimit) of
                                             None \<Rightarrow> lines1
                                           | Some q \<Rightarrow> slice_from (trunc (- q)) lines1)
                             in Inr (200, TextBody (join_nl lines2)))))) of
        Inl e \<Rightarrow> (500, JsonBody (error_json (String_of e)))
      | Inr r \<Rightarrow> r)"

section \<open>What the specification says about filter and limit\<close>

text \<open>
  These definitions follow the words of the specification, not the code. The lines of a
  log are the pieces between its newlines, a final newline ending the last line rather than
  starting another one. A filter is a case-insensitive substring match. A limit keeps only
  the most recent \<open>N\<close> entries, and the filter is applied before the limit.
\<close>

definition spec_lines :: "string \<Rightarrow> string list" where
  "spec_lines content =
     (let ps = split_nl content in if last ps = [] then butlast ps else ps)"

definition spec_ci_match :: "(string \<Rightarrow> string) \<Rightarrow> string \<Rightarrow> string \<Rightarrow> bool" where
  "spec_ci_match toLowerCase f s = sublist (toLowerCase f) (toLowerCase s)"

definition spec_most_recent :: "nat \<Rightarrow> 'a list \<Rightarrow> 'a list" where
  "spec_most_recent n xs = drop (length xs - n) xs"

definition spec_slice ::
  "(string \<Rightarrow> string) \<Rightarrow> string option \<Rightarrow> nat option \<Rightarrow> ('a \<Rightarrow> string) \<Rightarrow> 'a list \<Rightarrow> 'a list" where
  "spec_slice toLowerCase flt n_opt render xs =
     (let ys = (case flt of
                  None \<Rightarrow> xs
                | Some f \<Rightarrow> filter (\<lambda>x. spec_ci_match toLowerCase f (render x)) xs)
      in case n_opt of None \<Rightarrow> ys | Some n \<Rightarrow> spec_most_recent n ys)"

section \<open>The run engine: \<^verbatim>\<open>src/tools.ts\<close>\<close>

text \<open>
  An action event is one element of the array \<^verbatim>\<open>actions\<close>: its type, its name, the
  error text of a \<^verbatim>\<open>step:error\<close>, and \<^verbatim>\<open>time: Date.now()\<close>.

  A script is what the runner does with its helpers: it calls \<^verbatim>\<open>helpers.screenshot\<close>
  and \<^verbatim>\<open>helpers.step\<close> (awaited), throws, catches, and drives the page, which makes the
  page emit events for the attached listeners.

  The environment \<open>env\<close> fixes the outcome of every call that leaves the program:
  the file system, the clock, the browser. \<open>now E i\<close> is the value of \<^verbatim>\<open>Date.now()\<close>
  when the action at position \<open>i\<close> is pushed, and \<open>pageScreenshot E i\<close> the outcome of
  the \<^verbatim>\<open>page.screenshot\<close> call that follows the push of the screenshot action at
  position \<open>i\<close> (\<open>None\<close>: the image is written; \<open>Some e\<close>: the call rejects with
  \<open>e\<close>). \<open>isoNow E k\<close> is \<^verbatim>\<open>new Date().toISOString()\<close> in the listener call
  number \<open>k\<close> that writes to a log, and \<open>appendFileSync E k\<close> the outcome of the
  \<^verbatim>\<open>fs.appendFileSync\<close> of that call.
\<close>

datatype status = PASS | FAIL

datatype action =
    Screenshot string nat
  | StepStart string nat
  | StepEnd string nat
  | StepError string string nat

text \<open>
  What the page can emit while the script drives it: a console message (its type and its
  text), a finished request (method, URL, and the status of the response when there is
  one), a finished request whose \<^verbatim>\<open>req.response()\<close> rejects, and an uncaught error of
  the page (\<^verbatim>\<open>pageerror\<close>).
\<close>

datatype page_event =
    Console string string
  | RequestFinished string string "int option"
  | RequestWithoutResponse string string
  | PageError string

text \<open>
  The statements of a script: \<^verbatim>\<open>await helpers.screenshot(name)\<close>,
  \<^verbatim>\<open>await helpers.step(name, async () => { body })\<close>, \<^verbatim>\<open>throw e\<close> (also a browser call
  that rejects), \<^verbatim>\<open>try { body } catch { handler }\<close>, and a browser call during which the
  page emits an event.
\<close>

datatype cmd =
    CallScreenshot string
  | CallStep string "cmd list"
  | Throw exn
  | TryCatch "cmd list" "cmd list"
  | PageEmits page_event

text \<open>
  A loaded module with its exports \<^verbatim>\<open>default\<close>, \<^verbatim>\<open>run\<close> and \<^verbatim>\<open>runner\<close>; an
  export that is a function is the script it runs.
\<close>

datatype export = Undefined | Null | NotCallable | Callable "cmd list"

record module =
  export_default :: export
  export_run :: export
  export_runner :: export

record env =
  scriptExists :: "string \<Rightarrow> bool"
  timestampId :: string
  mkdir :: "exn option"
  now :: "nat \<Rightarrow> nat"
  isoNow :: "nat \<Rightarrow> string"
  appendFileSync :: "nat \<Rightarrow> exn option"
  launch :: "exn option"
  newContext :: "exn option"
  newPage :: "exn option"
  tracingStart :: "exn option"
  importModule :: "string \<Rightarrow> exn + module"
  goto :: "exn option"
  pageScreenshot :: "nat \<Rightarrow> exn option"
  tracingStop :: "exn option"
  pageClose :: "exn option"
  contextClose :: "exn option"
  browserClose :: "exn option"
  writeFile :: "exn option"

text \<open>
  The variables of \<^verbatim>\<open>runTest\<close> that the helpers and the listeners update, and the files
  they write: the lines appended to \<^verbatim>\<open>console.log\<close> (each kept as its time stamp, its
  message type and its message text; \<open>console_line\<close> is the line as it stands in the
  file) and to \<^verbatim>\<open>network.log\<close>, and the names of the images in the run directory.
  \<open>appendCalls\<close> counts the calls of the listeners that write to a log, so that the
  environment can answer each of them.
\<close>

type_synonym console_entry = "string \<times> string \<times> string"

record run_state =
  actions :: "action list"
  criticalErrors :: "string list"
  status :: status
  consoleLog :: "console_entry list"
  networkLog :: "string list"
  pngs :: "string list"
  appendCalls :: nat

definition console_line :: "console_entry \<Rightarrow> string" where
  "console_line entry =
     (case entry of (stamp, ty, txt) \<Rightarrow> ''['' @ stamp @ ''] ['' @ ty @ ''] '' @ txt @ [CHR 0x0A])"

text \<open>\<^verbatim>\<open>actions.push({ type, name, ..., time: Date.now() })\<close>.\<close>

definition push :: "env \<Rightarrow> (nat \<Rightarrow> action) \<Rightarrow> run_state \<Rightarrow> run_state" where
  "push E mk s = s\<lparr>actions := actions s @ [mk (now E (length (actions s)))]\<rparr>"

text \<open>
  The two listeners that \<^verbatim>\<open>runTest\<close> attaches with \<^verbatim>\<open>page.on\<close>, for
  \<^verbatim>\<open>console\<close> and for \<^verbatim>\<open>requestfinished\<close>. The console listener appends its line
  and then, for a message of type \<^verbatim>\<open>error\<close>, pushes the text to
  \<^verbatim>\<open>criticalErrors\<close>; its \<^verbatim>\<open>appendFileSync\<close> is not guarded, so when that call
  throws, the listener is left before the push and neither the line nor the critical error
  is recorded (what the exception does to the emitter of the event is the platform's
  business). The request listener has a \<^verbatim>\<open>try\<close> around everything: a rejected
  \<^verbatim>\<open>req.response()\<close> or a failed append is ignored; \<^verbatim>\<open>JSON.stringify\<close> leaves out
  an undefined status. Nothing is attached for \<^verbatim>\<open>pageerror\<close>, so that event changes
  nothing.
\<close>

definition on_console :: "env \<Rightarrow> string \<Rightarrow> string \<Rightarrow> run_state \<Rightarrow> run_state" where
  "on_console E ty txt s =
     (let k = appendCalls s;
          entry = (isoNow E k, ty, txt);
          s0 = s\<lparr>appendCalls := Suc k\<rparr>
      in case appendFileSync E k of
           Some e \<Rightarrow> s0
         | None \<Rightarrow>
             (let s1 = s0\<lparr>consoleLog := consoleLog s0 @ [entry]\<rparr>
              in if ty = ''error'' then s1\<lparr>criticalErrors := criticalErrors s1 @ [txt]\<rparr> else s1))"

definition on_requestfinished :: "env \<Rightarrow> string \<Rightarrow> string \<Rightarrow> int option \<Rightarrow> run_state \<Rightarrow> run_state" where
  "on_requestfinished E method url st s =
     (let k = appendCalls s;
          rec = JObj ([(''time'', JStr (isoNow E k)), (''method'', JStr method), (''url'', JStr url)]
                      @ (case st of None \<Rightarrow> [] | Some c \<Rightarrow> [(''status'', JNum c)]));
          s0 = s\<lparr>appendCalls := Suc k\<rparr>
      in case appendFileSync E k of
           Some e \<Rightarrow> s0
         | None \<Rightarrow> s0\<lparr>networkLog := networkLog s0 @ [stringify rec @ [CHR 0x0A]]\<rparr>)"

fun dispatch :: "env \<Rightarrow> page_event \<Rightarrow> run_state \<Rightarrow> run_state" where
  "dispatch E (Console ty txt) s = on_console E ty txt s"
| "dispatch E (RequestFinished method url st) s = on_requestfinished E method url st s"
| "dispatch E (RequestWithoutResponse method url) s = s"
| "dispatch E (PageError msg) s = s"

text \<open>
  \<^verbatim>\<open>helpers.screenshot\<close>: the action is pushed first, then the page is asked for the
  image. \<open>Some e\<close> in the result: the call throws \<open>e\<close>.
\<close>

definition screenshot :: "env \<Rightarrow> string \<Rightarrow> run_state \<Rightarrow> exn option \<times> run_state" where
  "screenshot E nm s =
     (let i = length (actions s);
          s1 = push E (Screenshot nm) s
      in case pageScreenshot E i of
           Some e \<Rightarrow> (Some e, s1)
         | None \<Rightarrow> (None, s1\<lparr>pngs := List.insert (nm @ ''.png'') (pngs s1)\<rparr>))"

text \<open>
  \<^verbatim>\<open>helpers.step(name, fn)\<close>. The \<open>before\<close> screenshot is taken outside the
  \<^verbatim>\<open>try\<close>. The inner \<open>case\<close> is \<^verbatim>\<open>try { await fn(); push step:end }
  catch (e) { push step:error; await screenshot(on_error); status = 'FAIL'; throw e }\<close>:
  when the \<open>on_error\<close> screenshot throws, its exception leaves the \<^verbatim>\<open>catch\<close> block
  before the status is set. The outer \<open>case\<close> is \<^verbatim>\<open>finally { await
  screenshot(after) }\<close>: it runs on both paths, and an exception of its own replaces the
  pending one.
\<close>

definition step ::
  "env \<Rightarrow> string \<Rightarrow> (run_state \<Rightarrow> exn option \<times> run_state) \<Rightarrow> run_state \<Rightarrow> exn option \<times> run_state" where
  "step E nm fn s =
     (let s1 = push E (StepStart nm) s
      in case screenshot E (''before_'' @ nm) s1 of
           (Some e, s2) \<Rightarrow> (Some e, s2)
         | (None, s2) \<Rightarrow>
             (case (case fn s2 of
                      (None, s3) \<Rightarrow> (None, push E (StepEnd nm) s3)
                    | (Some e, s3) \<Rightarrow>
                        (let s4 = push E (StepError nm (String_of e)) s3
                         in case screenshot E (''on_error_'' @ nm) s4 of
                              (Some e', s5) \<Rightarrow> (Some e', s5)
                            | (None, s5) \<Rightarrow> (Some e, s5\<lparr>status := FAIL\<rparr>))) of
                (r, s6) \<Rightarrow>
                  (case screenshot E (''after_'' @ nm) s6 of
                     (Some e'', s7) \<Rightarrow> (Some e'', s7)
                   | (None, s7) \<Rightarrow> (r, s7))))"

text \<open>Running a statement and a sequence of statements; a throw ends the sequence.\<close>

fun exec :: "env \<Rightarrow> cmd \<Rightarrow> run_state \<Rightarrow> exn option \<times> run_state"
  and execs :: "env \<Rightarrow> cmd list \<Rightarrow> run_state \<Rightarrow> exn option \<times> run_state" where
  "exec E (CallScreenshot nm) s = screenshot E nm s"
| "exec E (CallStep nm body) s = step E nm (\<lambda>s'. execs E body s') s"
| "exec E (Throw e) s = (Some e, s)"
| "exec E (TryCatch body handler) s =
     (case execs E body s of
        (None, s1) \<Rightarrow> (None, s1)
      | (Some e, s1) \<Rightarrow> execs E handler s1)"
| "exec E (PageEmits ev) s = (None, dispatch E ev s)"
| "execs E [] s = (None, s)"
| "execs E (c # cs) s =
     (case exec E c s of
        (None, s1) \<Rightarrow> execs E cs s1
      | (Some e, s1) \<Rightarrow> (Some e, s1))"

text \<open>
  Which of \<^verbatim>\<open>browser\<close>, \<^verbatim>\<open>context\<close> and \<^verbatim>\<open>page\<close> are no longer
  \<^verbatim>\<open>null\<close> when the \<^verbatim>\<open>try\<close> block of \<^verbatim>\<open>runTest\<close> is left.
\<close>

record handles =
  browser_open :: bool
  context_open :: bool
  page_open :: bool

text \<open>\<^verbatim>\<open>mod.default ?? mod.run ?? mod.runner\<close>.\<close>

fun candidate :: "module \<Rightarrow> export" where
  "candidate m =
     (if export_default m \<noteq> Undefined \<and> export_default m \<noteq> Null then export_default m
      else if export_run m \<noteq> Undefined \<and> export_run m \<noteq> Null then export_run m
      else export_runner m)"

text \<open>
  The \<^verbatim>\<open>try\<close> block of \<^verbatim>\<open>runTest\<close>: launch, session, page, listeners, tracing,
  loading the script, \<^verbatim>\<open>page.goto('about:blank')\<close>, the runner. \<open>importModule\<close>
  stands for \<^verbatim>\<open>import(toFileHref(scriptPath))\<close>. The first component of the result is
  the exception that reaches the \<^verbatim>\<open>catch\<close> of the engine, if any.
\<close>

definition tryBlock :: "env \<Rightarrow> string \<Rightarrow> run_state \<Rightarrow> exn option \<times> handles \<times> run_state" where
  "tryBlock E scriptPath s =
     (case launch E of
        Some e \<Rightarrow> (Some e, \<lparr>browser_open = False, context_open = False, page_open = False\<rparr>, s)
      | None \<Rightarrow>
     (case newContext E of
        Some e \<Rightarrow> (Some e, \<lparr>browser_open = True, context_open = False, page_open = False\<rparr>, s)
      | None \<Rightarrow>
     (case newPage E of
        Some e \<Rightarrow> (Some e, \<lparr>browser_open = True, context_open = True, page_open = False\<rparr>, s)
      | None \<Rightarrow>
     (let h = \<lparr>browser_open = True, context_open = True, page_open = True\<rparr>
      in case tracingStart E of
           Some e \<Rightarrow> (Some e, h, s)
         | None \<Rightarrow>
        (case importModule E scriptPath of
           Inl e \<Rightarrow> (Some e, h, s)
         | Inr m \<Rightarrow>
        (case candidate m of
           Callable runner \<Rightarrow>
             (case goto E of
                Some e \<Rightarrow> (Some e, h, s)
              | None \<Rightarrow> (case execs E runner s of (r, s') \<Rightarrow> (r, h, s')))
         | _ \<Rightarrow> (Some (Error ''Test script must export default async function (page, context, helpers)''), h, s)))))))"

text \<open>
  The \<^verbatim>\<open>finally\<close> block of \<^verbatim>\<open>runTest\<close>. \<open>attempted\<close> lists the operations it
  reaches, \<open>raised\<close> is the exception that leaves it, \<open>traceZip\<close> and \<open>actionsJson\<close>
  say what it writes. \<^verbatim>\<open>context.tracing.stop\<close> is awaited bare; the three closes are
  followed by \<^verbatim>\<open>.catch(() => {})\<close> (\<open>quietly\<close>: the same on both outcomes); the write
  of the events is inside a \<^verbatim>\<open>try\<close> with an empty \<^verbatim>\<open>catch\<close>.
\<close>

datatype cleanup = TraceStop | PageClose | ContextClose | BrowserClose | WriteActions

record finalization =
  attempted :: "cleanup list"
  raised :: "exn option"
  traceZip :: bool
  actionsJson :: "action list option"

definition quietly :: "cleanup \<Rightarrow> exn option \<Rightarrow> cleanup list \<Rightarrow> cleanup list" where
  "quietly c outcome done = (case outcome of None \<Rightarrow> done @ [c] | Some e \<Rightarrow> done @ [c])"

definition finalize :: "env \<Rightarrow> handles \<Rightarrow> run_state \<Rightarrow> finalization" where
  "finalize E h s =
     (case (if context_open h then tracingStop E else None) of
        Some e \<Rightarrow> \<lparr>attempted = [TraceStop], raised = Some e, traceZip = False, actionsJson = None\<rparr>
      | None \<Rightarrow>
          (let a0 = (if context_open h then [TraceStop] else []);
               a1 = (if page_open h then quietly PageClose (pageClose E) a0 else a0);
               a2 = (if context_open h then quietly ContextClose (contextClose E) a1 else a1);
               a3 = (if browser_open h then quietly BrowserClose (browserClose E) a2 else a2)
           in \<lparr>attempted = a3 @ [WriteActions], raised = None, traceZip = context_open h,
                actionsJson = (case writeFile E of None \<Rightarrow> Some (actions s) | Some e \<Rightarrow> None)\<rparr>))"

text \<open>
  \<^verbatim>\<open>runTest\<close>. The first component is what the caller gets: \<open>Inl e\<close> when the call
  throws \<open>e\<close> (a missing script, a failed \<^verbatim>\<open>mkdirSync\<close>, or an exception leaving the
  \<^verbatim>\<open>finally\<close> block), \<open>Inr r\<close> when it returns \<open>r\<close>. The second component records
  what happened inside, for the statements below: what the \<^verbatim>\<open>catch\<close> of the engine
  caught, the state at the end, and the cleanup.
\<close>

record RunResult =
  r_status :: status
  r_artifactsDir :: string
  r_runId :: string
  r_criticalErrors :: "string list"

record run_report =
  caught :: "exn option"
  final_state :: run_state
  cleanup_done :: finalization

definition initial_state :: run_state where
  "initial_state = \<lparr>actions = [], criticalErrors = [], status = PASS, consoleLog = [], networkLog = [],
                     pngs = [], appendCalls = 0\<rparr>"

definition runTest :: "env \<Rightarrow> string \<Rightarrow> (exn + RunResult) \<times> run_report option" where
  "runTest E scriptPath =
     (if \<not> scriptExists E scriptPath then (Inl (Error (''Script file not found: '' @ scriptPath)), None)
      else case mkdir E of
        Some e \<Rightarrow> (Inl e, None)
      | None \<Rightarrow>
          (case tryBlock E scriptPath initial_state of
             (r, h, s1) \<Rightarrow>
               (let s2 = (case r of None \<Rightarrow> s1 | Some err \<Rightarrow> s1\<lparr>status := FAIL\<rparr>);
                    f = finalize E h s2
                in (case raised f of
                      Some e \<Rightarrow> Inl e
                    | None \<Rightarrow> Inr \<lparr>r_status = status s2, r_artifactsDir = resolve_runs (timestampId E),
                                   r_runId = timestampId E, r_criticalErrors = criticalErrors s2\<rparr>,
                    Some \<lparr>caught = r, final_state = s2, cleanup_done = f\<rparr>))))"

text \<open>An action without its time stamp, to compare event sequences.\<close>

definition untimed :: "action \<Rightarrow> action" where
  "untimed a = (case a of Screenshot n t \<Rightarrow> Screenshot n 0 | StepStart n t \<Rightarrow> StepStart n 0
                | StepEnd n t \<Rightarrow> StepEnd n 0 | StepError n e t \<Rightarrow> StepError n e 0)"

section \<open>Concrete inputs\<close>

definition demo_env :: "cmd list \<Rightarrow> env" where
  "demo_env script =
     \<lparr>scriptExists = (\<lambda>p. p = ''tests/example.spec.ts''),
      timestampId = ''2025-07-31-22-35-15'',
      mkdir = None,
      now = (\<lambda>i. 1000 + i),
      isoNow = (\<lambda>k. ''2025-07-31T22:35:15.000Z''),
      appendFileSync = (\<lambda>k. None),
      launch = None, newContext = None, newPage = None, tracingStart = None,
      importModule = (\<lambda>p. Inr \<lparr>export_default = Callable script, export_run = Undefined, export_runner = Undefined\<rparr>),
      goto = None,
      pageScreenshot = (\<lambda>i. None),
      tracingStop = None, pageClose = None, contextClose = None, browserClose = None,
      writeFile = None\<rparr>"

definition demo_events :: "json list" where
  "demo_events =
     [JObj [(''type'', JStr ''step:start''), (''name'', JStr ''open_example''), (''time'', JNum 1000)],
      JObj [(''type'', JStr ''screenshot''), (''name'', JStr ''before_open_example''), (''time'', JNum 1001)],
      JObj [(''type'', JStr ''step:end''), (''name'', JStr ''open_example''), (''time'', JNum 1002)]]"

definition demo_console :: string where
  "demo_console = ''[INFO] ok'' @ [CHR 0x0A] @ ''[ERROR] boom'' @ [CHR 0x0A]"

definition demo_dir :: dir where
  "demo_dir =
       [(''console.log'', demo_console),
        (''b.png'', ''''), (''actions.json'', stringify (JArr demo_events)), (''a.png'', ''''),
        (''trace.zip'', '''')]"

definition demo_fs :: fs where
  "demo_fs = [''runs/2025-07-31-22-35-15'' \<mapsto> demo_dir]"

definition demo_dir_reordered :: dir where
  "demo_dir_reordered =
       [(''a.png'', ''''), (''trace.zip'', ''''), (''b.png'', ''''),
        (''console.log'', demo_console), (''actions.json'', stringify (JArr demo_events))]"

definition demo_fs_reordered :: fs where
  "demo_fs_reordered = [''runs/2025-07-31-22-35-15'' \<mapsto> demo_dir_reordered]"

definition demo_parse :: "string \<Rightarrow> exn + json" where
  "demo_parse s = (if s = stringify (JArr demo_events) then Inr (JArr demo_events)
                   else Inl (SyntaxError ''Unexpected token''))"

definition demo_args :: "string \<Rightarrow> string option \<Rightarrow> jsnum option \<Rightarrow> args" where
  "demo_args k g l = \<lparr> runId = ''2025-07-31-22-35-15'', kind = k, name = None, grep = g, limit = l \<rparr>"

text \<open>\<^verbatim>\<open>Number(s)\<close> on the three query strings used below.\<close>

definition demo_Number :: "string \<Rightarrow> jsnum" where
  "demo_Number s = (if s = ''0'' then Num 0 else if s = ''Infinity'' then PosInf else NaN)"

section \<open>What the specification says about the events of a step\<close>

text \<open>
  The ordering invariant in the words of the specification: the \<open>before\<close> screenshot, then
  \<^verbatim>\<open>step:start\<close>, then the body, then \<^verbatim>\<open>step:end\<close> and the \<open>after\<close> screenshot
  on success, or \<^verbatim>\<open>step:error\<close> and the \<open>on_error\<close> screenshot on failure.
\<close>

definition spec_step_order :: "string \<Rightarrow> action list \<Rightarrow> exn option \<Rightarrow> action list" where
  "spec_step_order nm body_events outcome =
     [Screenshot (''before_'' @ nm) 0, StepStart nm 0] @ body_events @
     (case outcome of
        None \<Rightarrow> [StepEnd nm 0, Screenshot (''after_'' @ nm) 0]
      | Some e \<Rightarrow> [StepError nm (String_of e) 0, Screenshot (''on_error_'' @ nm) 0])"

section \<open>Predicates on runs\<close>

text \<open>
  A \<^verbatim>\<open>step:error\<close> event is pushed exactly when the body of a step has raised, so
  "some step's body raised" is: the event sequence holds a \<^verbatim>\<open>step:error\<close>.
\<close>

fun is_step_error :: "action \<Rightarrow> bool" where
  "is_step_error (StepError n e t) = True"
| "is_step_error a = False"

definition fail_explained :: "run_state \<Rightarrow> bool" where
  "fail_explained s = (status s = FAIL \<longrightarrow> list_ex is_step_error (actions s))"

definition error_fails :: "run_state \<Rightarrow> bool" where
  "error_fails s = (list_ex is_step_error (actions s) \<longrightarrow> status s = FAIL)"

text \<open>
  Four runs of \<^verbatim>\<open>tests/example.spec.ts\<close>-like scripts. In the first the body of a step
  fails on a page that has closed, so the screenshots after it are rejected, and the script
  catches what \<^verbatim>\<open>helpers.step\<close> throws. In the second no screenshot can be taken. In the
  third \<^verbatim>\<open>context.tracing.stop\<close> rejects. In the fourth the page logs a console
  error and then raises an uncaught error.
\<close>

definition env_page_closed :: env where
  "env_page_closed =
     (demo_env [TryCatch [CallStep ''checkout'' [Throw (Error ''Target page closed'')]] []])
       \<lparr>pageScreenshot := (\<lambda>i. if 3 \<le> i then Some (Error ''Target page closed'') else None)\<rparr>"

definition env_no_screenshots :: env where
  "env_no_screenshots =
     (demo_env [CallStep ''open_example'' []])
       \<lparr>pageScreenshot := (\<lambda>i. Some (Error ''Target page closed''))\<rparr>"

definition env_trace_stop_fails :: env where
  "env_trace_stop_fails =
     (demo_env [CallStep ''open_example'' []])\<lparr>tracingStop := Some (Error ''Must start tracing before stopping'')\<rparr>"

definition env_page_error :: env where
  "env_page_error =
     demo_env [PageEmits (Console ''error'' ''Failed to load resource''),
               PageEmits (PageError ''Uncaught ReferenceError: app is not defined'')]"

text \<open>
  The texts of the messages of type \<^verbatim>\<open>error\<close> in a console log, in the order of the
  log.
\<close>

definition console_errors :: "console_entry list \<Rightarrow> string list" where
  "console_errors entries =
     map (\<lambda>(stamp, ty, txt). txt) (filter (\<lambda>(stamp, ty, txt). ty = ''error'') entries)"

text \<open>
  A script without the uncaught errors of the page: the same statements, with every
  \<^verbatim>\<open>pageerror\<close> event left out.
\<close>

fun without_page_errors :: "cmd \<Rightarrow> cmd list"
  and without_page_errors_list :: "cmd list \<Rightarrow> cmd list" where
  "without_page_errors (PageEmits (PageError msg)) = []"
| "without_page_errors (PageEmits (Console ty txt)) = [PageEmits (Console ty txt)]"
| "without_page_errors (PageEmits (RequestFinished method url st)) = [PageEmits (RequestFinished method url st)]"
| "without_page_errors (PageEmits (RequestWithoutResponse method url)) = [PageEmits (RequestWithoutResponse method url)]"
| "without_page_errors (CallScreenshot nm) = [CallScreenshot nm]"
| "without_page_errors (CallStep nm body) = [CallStep nm (without_page_errors_list body)]"
| "without_page_errors (Throw e) = [Throw e]"
| "without_page_errors (TryCatch body handler) =
     [TryCatch (without_page_errors_list body) (without_page_errors_list handler)]"
| "without_page_errors_list [] = []"
| "without_page_errors_list (c # cs) = without_page_errors c @ without_page_errors_list cs"

text \<open>
  An environment without the uncaught errors of the page: every script it loads is the
  script without its \<^verbatim>\<open>pageerror\<close> events.
\<close>

fun export_without_page_errors :: "export \<Rightarrow> export" where
  "export_without_page_errors (Callable script) = Callable (without_page_errors_list script)"
| "export_without_page_errors Undefined = Undefined"
| "export_without_page_errors Null = Null"
| "export_without_page_errors NotCallable = NotCallable"

definition env_without_page_errors :: "env \<Rightarrow> env" where
  "env_without_page_errors E =
     E\<lparr>importModule := (\<lambda>p. case importModule E p of
                                Inl e \<Rightarrow> Inl e
                              | Inr m \<Rightarrow> Inr \<lparr>export_default = export_without_page_errors (export_default m),
                                             export_run = export_without_page_errors (export_run m),
                                             export_runner = export_without_page_errors (export_runner m)\<rparr>)\<rparr>"

text \<open>
  The critical errors are the texts of the \<^verbatim>\<open>error\<close> messages written to
  \<^verbatim>\<open>console.log\<close>, in the order of the log.
\<close>

definition critical_is_console :: "run_state \<Rightarrow> bool" where
  "critical_is_console s = (criticalErrors s = console_errors (consoleLog s))"

section \<open>Properties of the artifact store\<close>

lemma str_includes_sublist: "str_includes s g = sublist g s"
  by (induction s) (auto simp: sublist_Cons_right)

lemma limit_of_ineffective:
  "l = Num 0 \<or> \<not> isFinite l \<Longrightarrow> limit_of (Some l) = None"
  by (cases l) (auto simp: limit_of_def)

lemma limit_of_None: "limit_of None = None"
  by (simp add: limit_of_def)

lemma trunc_neg: "0 \<le> q \<Longrightarrow> trunc (- q) = - \<lfloor>q\<rfloor>"
  by (auto simp: trunc_def)

lemma slice_from_most_recent:
  "1 \<le> q \<Longrightarrow> slice_from (trunc (- q)) xs = spec_most_recent (nat \<lfloor>q\<rfloor>) xs"
proof -
  assume q: "1 \<le> q"
  then have f: "1 \<le> \<lfloor>q\<rfloor>" by linarith
  from q have t: "trunc (- q) = - \<lfloor>q\<rfloor>" by (simp add: trunc_neg)
  have "nat (max (int (length xs) - \<lfloor>q\<rfloor>) 0) = length xs - nat \<lfloor>q\<rfloor>"
    using f by linarith
  with f t show ?thesis
    by (simp add: slice_from_def spec_most_recent_def Let_def)
qed

lemma effective_limit:
  assumes "l = None \<and> n = None \<or> (\<exists>q. 1 \<le> q \<and> l = Some (Num q) \<and> n = Some (nat \<lfloor>q\<rfloor>))"
  shows "(case limit_of l of None \<Rightarrow> xs | Some q \<Rightarrow> slice_from (trunc (- q)) xs)
           = (case n of None \<Rightarrow> xs | Some k \<Rightarrow> spec_most_recent k xs)"
  using assms by (auto simp: limit_of_def slice_from_most_recent)

subsection \<open>Lines\<close>

lemma split_nl_not_Nil: "split_nl c \<noteq> []"
  by (induction c) (auto split: list.split)

lemma join_split_nl: "join_nl (split_nl c) = c"
proof (induction c)
  case Nil
  show ?case by simp
next
  case (Cons x c)
  obtain l ls where s: "split_nl c = l # ls"
    using split_nl_not_Nil [of c] by (cases "split_nl c") auto
  with Cons show ?case by (cases ls) auto
qed

lemma filter_split_lines:
  assumes "\<not> P []"
  shows "filter P (split_nl c) = filter P (spec_lines c)"
proof (cases "last (split_nl c) = []")
  case True
  have "split_nl c = butlast (split_nl c) @ [last (split_nl c)]"
    using split_nl_not_Nil [of c] by simp
  then have "filter P (split_nl c) = filter P (butlast (split_nl c) @ [[]])"
    using True by simp
  then show ?thesis using True assms by (simp add: spec_lines_def)
next
  case False
  then show ?thesis by (simp add: spec_lines_def)
qed

lemma spec_ci_match_empty_line:
  "toLowerCase [] = [] \<Longrightarrow> toLowerCase f \<noteq> [] \<Longrightarrow> \<not> spec_ci_match toLowerCase f []"
  by (simp add: spec_ci_match_def)

subsection \<open>The filter of the two handlers is the filter of the specification\<close>

lemma filter_code_spec:
  "(case grep_of toLowerCase g of
      None \<Rightarrow> xs
    | Some f \<Rightarrow> filter (\<lambda>x. str_includes (toLowerCase (render x)) f) xs)
     = (case g of None \<Rightarrow> xs | Some f \<Rightarrow> filter (\<lambda>x. spec_ci_match toLowerCase f (render x)) xs)"
  by (cases g) (auto simp: grep_of_def truthy_str_def spec_ci_match_def str_includes_sublist)

lemma query_filter_code_spec:
  assumes "toLowerCase [] = []"
  shows "(case query_grep toLowerCase g of
      None \<Rightarrow> xs
    | Some f \<Rightarrow> filter (\<lambda>x. str_includes (toLowerCase (render x)) f) xs)
     = (case g of None \<Rightarrow> xs | Some f \<Rightarrow> filter (\<lambda>x. spec_ci_match toLowerCase f (render x)) xs)"
  using assms
  by (cases g) (auto simp: query_grep_def truthy_str_def spec_ci_match_def str_includes_sublist)

lemma existsSync_map_of:
  "fs d = Some es \<Longrightarrow> map_of es f = Some c \<Longrightarrow> existsSync fs d f"
  by (auto simp: existsSync_def dest: map_of_SomeD intro: rev_image_eqI)

lemma readFileSync_map_of:
  "fs d = Some es \<Longrightarrow> map_of es f = Some c \<Longrightarrow> readFileSync fs d f = Inr c"
  by (simp add: readFileSync_def)

lemma ensureRunDir_Some:
  "fs (resolve_runs r) = Some es \<Longrightarrow> ensureRunDir fs r = Inr (resolve_runs r)"
  by (simp add: ensureRunDir_def)

lemma lines_result:
  assumes "fs (resolve_runs (runId a)) = Some es"
    and "kind a = ''console'' \<and> f = ''console.log'' \<or> kind a = ''network'' \<and> f = ''network.log''"
    and "map_of es f = Some content"
  shows "handleGetArtifact parse toLowerCase fs a =
     Inr (join_nl (case limit_of (limit a) of
                     None \<Rightarrow> (case grep a of None \<Rightarrow> split_nl content
                               | Some g \<Rightarrow> filter (\<lambda>x. spec_ci_match toLowerCase g x) (split_nl content))
                   | Some q \<Rightarrow> slice_from (trunc (- q))
                         (case grep a of None \<Rightarrow> split_nl content
                          | Some g \<Rightarrow> filter (\<lambda>x. spec_ci_match toLowerCase g x) (split_nl content))))"
proof -
  have e: "existsSync fs (resolve_runs (runId a)) f" "readFileSync fs (resolve_runs (runId a)) f = Inr content"
    using assms existsSync_map_of readFileSync_map_of by blast+
  have flt: "(case grep_of toLowerCase (grep a) of None \<Rightarrow> split_nl content
              | Some g \<Rightarrow> filter (\<lambda>l. str_includes (toLowerCase l) g) (split_nl content))
            = (case grep a of None \<Rightarrow> split_nl content
               | Some g \<Rightarrow> filter (\<lambda>x. spec_ci_match toLowerCase g x) (split_nl content))"
    using filter_code_spec [where g = "grep a" and xs = "split_nl content" and render = "\<lambda>l. l"] by simp
  have d: "ensureRunDir fs (runId a) = Inr (resolve_runs (runId a))"
    using ensureRunDir_Some [of fs "runId a" es] assms(1) by simp
  from assms(2) consider "kind a = ''console''" "f = ''console.log''"
    | "kind a = ''network''" "f = ''network.log''" by blast
  then show ?thesis
  proof cases
    case 1
    with e show ?thesis
      by (cases "limit_of (limit a)") (simp_all add: handleGetArtifact_def Let_def d flt)
  next
    case 2
    with e show ?thesis
      by (cases "limit_of (limit a)") (simp_all add: handleGetArtifact_def Let_def d flt)
  qed
qed

lemma actions_result:
  assumes "fs (resolve_runs (runId a)) = Some es"
    and "kind a = ''actions''"
    and "map_of es ''actions.json'' = Some content"
    and "parse content = Inr (JArr items)"
  shows "handleGetArtifact parse toLowerCase fs a =
     Inr (stringify (JArr (case limit_of (limit a) of
                     None \<Rightarrow> (case grep a of None \<Rightarrow> items
                               | Some g \<Rightarrow> filter (\<lambda>x. spec_ci_match toLowerCase g (stringify x)) items)
                   | Some q \<Rightarrow> slice_from (trunc (- q))
                         (case grep a of None \<Rightarrow> items
                          | Some g \<Rightarrow> filter (\<lambda>x. spec_ci_match toLowerCase g (stringify x)) items))))"
proof -
  have e: "existsSync fs (resolve_runs (runId a)) ''actions.json''"
    "readFileSync fs (resolve_runs (runId a)) ''actions.json'' = Inr content"
    using assms existsSync_map_of readFileSync_map_of by blast+
  have flt: "(case grep_of toLowerCase (grep a) of None \<Rightarrow> items
              | Some g \<Rightarrow> filter (\<lambda>x. str_includes (toLowerCase (stringify x)) g) items)
            = (case grep a of None \<Rightarrow> items
               | Some g \<Rightarrow> filter (\<lambda>x. spec_ci_match toLowerCase g (stringify x)) items)"
    by (rule filter_code_spec)
  have step1: "(case grep_of toLowerCase (grep a) of None \<Rightarrow> Inr (items_of (JArr items))
                | Some g \<Rightarrow> items_filter toLowerCase g (items_of (JArr items)))
              = Inr (JArr (case grep a of None \<Rightarrow> items
                           | Some g \<Rightarrow> filter (\<lambda>x. spec_ci_match toLowerCase g (stringify x)) items))"
    using flt by (cases "grep_of toLowerCase (grep a)") auto
  show ?thesis
    using e step1 assms(1,2,4) ensureRunDir_Some [of fs "runId a" es]
    by (cases "limit_of (limit a)") (simp_all add: handleGetArtifact_def Let_def)
qed

lemma route_lines_result:
  assumes "fs (resolve_runs r) = Some es"
    and "k = ''console'' \<and> f = ''console.log'' \<or> k = ''network'' \<and> f = ''network.log''"
    and "map_of es f = Some content"
    and "toLowerCase [] = []"
  shows "logRoute parse toLowerCase toNumber fs r k g ql =
     (200, TextBody (join_nl (case limit_of (query_limit toNumber ql) of
                     None \<Rightarrow> (case g of None \<Rightarrow> split_nl content
                               | Some g \<Rightarrow> filter (\<lambda>x. spec_ci_match toLowerCase g x) (split_nl content))
                   | Some q \<Rightarrow> slice_from (trunc (- q))
                         (case g of None \<Rightarrow> split_nl content
                          | Some g \<Rightarrow> filter (\<lambda>x. spec_ci_match toLowerCase g x) (split_nl content)))))"
proof -
  have e: "existsSync fs (resolve_runs r) f" "readFileSync fs (resolve_runs r) f = Inr content"
    using assms existsSync_map_of readFileSync_map_of by blast+
  have flt: "(case query_grep toLowerCase g of None \<Rightarrow> split_nl content
              | Some g \<Rightarrow> filter (\<lambda>l. str_includes (toLowerCase l) g) (split_nl content))
            = (case g of None \<Rightarrow> split_nl content
               | Some g \<Rightarrow> filter (\<lambda>x. spec_ci_match toLowerCase g x) (split_nl content))"
    using assms(4) query_filter_code_spec
        [where toLowerCase = toLowerCase and g = g and xs = "split_nl content" and render = "\<lambda>l. l"]
    by simp
  have d: "ensureRunDir fs r = Inr (resolve_runs r)"
    using ensureRunDir_Some [of fs r es] assms(1) by simp
  from assms(2) consider "k = ''console''" "f = ''console.log''"
    | "k = ''network''" "f = ''network.log''" by blast
  then show ?thesis
  proof cases
    case 1
    with e show ?thesis
      by (cases "limit_of (query_limit toNumber ql)") (simp_all add: logRoute_def Let_def d flt)
  next
    case 2
    with e show ?thesis
      by (cases "limit_of (query_limit toNumber ql)") (simp_all add: logRoute_def Let_def d flt)
  qed
qed

lemma route_actions_result:
  assumes "fs (resolve_runs r) = Some es"
    and "map_of es ''actions.json'' = Some content"
    and "parse content = Inr (JArr items)"
    and "toLowerCase [] = []"
  shows "logRoute parse toLowerCase toNumber fs r ''actions'' g ql =
     (200, JsonBody (JArr (case limit_of (query_limit toNumber ql) of
                     None \<Rightarrow> (case g of None \<Rightarrow> items
                               | Some g \<Rightarrow> filter (\<lambda>x. spec_ci_match toLowerCase g (stringify x)) items)
                   | Some q \<Rightarrow> slice_from (trunc (- q))
                         (case g of None \<Rightarrow> items
                          | Some g \<Rightarrow> filter (\<lambda>x. spec_ci_match toLowerCase g (stringify x)) items))))"
proof -
  have e: "existsSync fs (resolve_runs r) ''actions.json''"
    "readFileSync fs (resolve_runs r) ''actions.json'' = Inr content"
    using assms existsSync_map_of readFileSync_map_of by blast+
  have flt: "(case query_grep toLowerCase g of None \<Rightarrow> items
              | Some g \<Rightarrow> filter (\<lambda>x. str_includes (toLowerCase (stringify x)) g) items)
            = (case g of None \<Rightarrow> items
               | Some g \<Rightarrow> filter (\<lambda>x. spec_ci_match toLowerCase g (stringify x)) items)"
    using assms(4) query_filter_code_spec
        [where toLowerCase = toLowerCase and g = g and xs = items and render = stringify]
    by simp
  have step1: "(case query_grep toLowerCase g of None \<Rightarrow> Inr (items_of (JArr items))
                | Some g \<Rightarrow> items_filter toLowerCase g (items_of (JArr items)))
              = Inr (JArr (case g of None \<Rightarrow> items
                           | Some g \<Rightarrow> filter (\<lambda>x. spec_ci_match toLowerCase g (stringify x)) items))"
    using flt by (cases "query_grep toLowerCase g") auto
  show ?thesis
    using e step1 assms(1,3) ensureRunDir_Some [of fs r es]
    by (cases "limit_of (query_limit toNumber ql)") (simp_all add: logRoute_def Let_def)
qed

lemma handleGetArtifact_cong:
  assumes "runId a = runId b" and "kind a = kind b" and "name a = name b" and "grep a = grep b"
    and "limit_of (limit a) = limit_of (limit b)"
  shows "handleGetArtifact parse toLowerCase fs a = handleGetArtifact parse toLowerCase fs b"
  unfolding handleGetArtifact_def assms ..

lemma logRoute_cong:
  assumes "limit_of (query_limit toNumber ql) = limit_of (query_limit toNumber ql')"
  shows "logRoute parse toLowerCase toNumber fs r k g ql = logRoute parse toLowerCase toNumber fs r k g ql'"
  unfolding logRoute_def assms ..

lemma sort_distinct_set:
  fixes xs ys :: "'a::linorder list"
  assumes "distinct xs" "distinct ys" "set xs = set ys"
  shows "sort xs = sort ys"
  using assms by (metis distinct_remdups_id sorted_list_of_set_sort_remdups)

lemma demo_dir_lookup:
  "demo_fs (resolve_runs (runId (demo_args k g l))) = Some demo_dir"
  "map_of demo_dir ''console.log'' = Some demo_console"
  "map_of demo_dir ''actions.json'' = Some (stringify (JArr demo_events))"
  "demo_parse (stringify (JArr demo_events)) = Inr (JArr demo_events)"
  "kind (demo_args k g l) = k" "grep (demo_args k g l) = g" "limit (demo_args k g l) = l"
  by (simp_all add: demo_fs_def demo_args_def resolve_runs_def demo_dir_def demo_parse_def)

lemma ascii_toLowerCase_Nil: "ascii_toLowerCase [] = []"
  by (simp add: ascii_toLowerCase_def)

text \<open>
  Claim C6. A request whose run identifier has no run directory fails with the error
  \<^verbatim>\<open>Run not found: <runId>\<close>, whatever its kind, name, filter and limit are (also for
  \<^verbatim>\<open>index\<close> and for a kind the dispatch does not know): \<^verbatim>\<open>ensureRunDir\<close> is the
  first thing the handler does, before it looks at the kind.
\<close>

theorem unknown_run_is_rejected_first:
  assumes "fs (resolve_runs (runId a)) = None"
  shows "handleGetArtifact parse toLowerCase fs a = Inl (Error (''Run not found: '' @ runId a))"
  using assms by (simp add: handleGetArtifact_def ensureRunDir_def)

theorem unknown_run_is_rejected_first_witness:
  "Map.empty (resolve_runs (runId (demo_args ''index'' None None))) = None
   \<and> handleGetArtifact demo_parse ascii_toLowerCase Map.empty (demo_args ''index'' None None)
       = Inl (Error ''Run not found: 2025-07-31-22-35-15'')
   \<and> handleGetArtifact demo_parse ascii_toLowerCase Map.empty (demo_args ''no-such-kind'' None None)
       = Inl (Error ''Run not found: 2025-07-31-22-35-15'')"
  using unknown_run_is_rejected_first [of Map.empty "demo_args ''index'' None None" demo_parse ascii_toLowerCase]
    unknown_run_is_rejected_first [of Map.empty "demo_args ''no-such-kind'' None None" demo_parse ascii_toLowerCase]
  by (simp add: demo_args_def)

text \<open>
  Claim C5 asks for a structured error value on every failure of a retrieval. For an
  unknown run identifier \<^verbatim>\<open>handleGetArtifact\<close> does not return one: the call throws
  (\<open>Inl\<close>), here for a run that does not exist in \<open>demo_fs\<close>.
\<close>

theorem unknown_run_raises_instead_of_error_value:
  "handleGetArtifact demo_parse ascii_toLowerCase demo_fs
      \<lparr> runId = ''1999-12-31-23-59-59'', kind = ''index'', name = None, grep = None, limit = None \<rparr>
     = Inl (Error ''Run not found: 1999-12-31-23-59-59'')"
  by code_simp

subsection \<open>Filter and limit\<close>

text \<open>
  Claim C7, amended. With no limit, or with a limit \<open>N \<ge> 1\<close> (a fractional limit counts
  as its integer part), a retrieval returns what the specification describes. For a console
  or network log with a non-empty filter: the lines of the log (the text before each line
  feed, and an unterminated last line) that match the filter case-insensitively, and of
  these only the most recent \<open>N\<close>. For an actions log, with or without a filter: the
  action records whose \<^verbatim>\<open>JSON.stringify\<close> rendering matches the filter
  case-insensitively, and of these only the most recent \<open>N\<close>.
\<close>

theorem filter_then_positive_limit_keeps_most_recent:
  assumes dir: "fs (resolve_runs (runId a)) = Some es"
    and lim: "limit a = None \<and> n = None \<or> (\<exists>q. 1 \<le> q \<and> limit a = Some (Num q) \<and> n = Some (nat \<lfloor>q\<rfloor>))"
    and lc: "toLowerCase [] = []"
  shows "((kind a = ''console'' \<and> map_of es ''console.log'' = Some content
            \<or> kind a = ''network'' \<and> map_of es ''network.log'' = Some content)
          \<and> grep a = Some f \<and> toLowerCase f \<noteq> []
          \<longrightarrow> handleGetArtifact parse toLowerCase fs a
                = Inr (join_nl (spec_slice toLowerCase (Some f) n (\<lambda>l. l) (spec_lines content))))
       \<and> (kind a = ''actions'' \<and> map_of es ''actions.json'' = Some content \<and> parse content = Inr (JArr items)
          \<longrightarrow> handleGetArtifact parse toLowerCase fs a
                = Inr (stringify (JArr (spec_slice toLowerCase (grep a) n stringify items))))"
proof (intro conjI impI)
  assume k: "(kind a = ''console'' \<and> map_of es ''console.log'' = Some content
            \<or> kind a = ''network'' \<and> map_of es ''network.log'' = Some content)
          \<and> grep a = Some f \<and> toLowerCase f \<noteq> []"
  then obtain fl where fl: "kind a = ''console'' \<and> fl = ''console.log'' \<or> kind a = ''network'' \<and> fl = ''network.log''"
    and m: "map_of es fl = Some content" by blast
  from k have g: "grep a = Some f" and ne: "toLowerCase f \<noteq> []" by simp_all
  have lines: "filter (\<lambda>x. spec_ci_match toLowerCase f x) (split_nl content)
             = filter (\<lambda>x. spec_ci_match toLowerCase f x) (spec_lines content)"
    by (rule filter_split_lines) (rule spec_ci_match_empty_line [OF lc ne])
  show "handleGetArtifact parse toLowerCase fs a
          = Inr (join_nl (spec_slice toLowerCase (Some f) n (\<lambda>l. l) (spec_lines content)))"
    unfolding lines_result [of fs a es fl content parse toLowerCase, OF dir fl m] spec_slice_def Let_def g
    by (simp only: effective_limit [OF lim] option.case lines)
next
  assume k: "kind a = ''actions'' \<and> map_of es ''actions.json'' = Some content \<and> parse content = Inr (JArr items)"
  then have r: "handleGetArtifact parse toLowerCase fs a =
     Inr (stringify (JArr (case limit_of (limit a) of
                     None \<Rightarrow> (case grep a of None \<Rightarrow> items
                               | Some g \<Rightarrow> filter (\<lambda>x. spec_ci_match toLowerCase g (stringify x)) items)
                   | Some q \<Rightarrow> slice_from (trunc (- q))
                         (case grep a of None \<Rightarrow> items
                          | Some g \<Rightarrow> filter (\<lambda>x. spec_ci_match toLowerCase g (stringify x)) items))))"
    using actions_result [of fs a es content parse items toLowerCase] dir by simp
  show "handleGetArtifact parse toLowerCase fs a
          = Inr (stringify (JArr (spec_slice toLowerCase (grep a) n stringify items)))"
    unfolding r spec_slice_def Let_def
    by (simp only: effective_limit [OF lim])
qed

theorem filter_then_positive_limit_keeps_most_recent_witness:
  "handleGetArtifact demo_parse ascii_toLowerCase demo_fs (demo_args ''console'' (Some ''error'') None)
       = Inr ''[ERROR] boom''
   \<and> handleGetArtifact demo_parse ascii_toLowerCase demo_fs (demo_args ''console'' (Some ''O'') (Some (Num 1)))
       = Inr ''[ERROR] boom''
   \<and> handleGetArtifact demo_parse ascii_toLowerCase demo_fs (demo_args ''actions'' None (Some (Num 1)))
       = Inr (stringify (JArr [JObj [(''type'', JStr ''step:end''), (''name'', JStr ''open_example''), (''time'', JNum 1002)]]))"
proof -
  have s1: "join_nl (spec_slice ascii_toLowerCase (Some ''error'') None (\<lambda>l. l) (spec_lines demo_console)) = ''[ERROR] boom''"
    by code_simp
  have s2: "join_nl (spec_slice ascii_toLowerCase (Some ''O'') (Some (nat \<lfloor>1::rat\<rfloor>)) (\<lambda>l. l) (spec_lines demo_console)) = ''[ERROR] boom''"
    by code_simp
  have s3: "spec_slice ascii_toLowerCase None (Some (nat \<lfloor>1::rat\<rfloor>)) stringify demo_events
      = [JObj [(''type'', JStr ''step:end''), (''name'', JStr ''open_example''), (''time'', JNum 1002)]]"
    by code_simp
  have n1: "ascii_toLowerCase ''error'' \<noteq> []" "ascii_toLowerCase ''O'' \<noteq> []"
    by (simp_all add: ascii_toLowerCase_def)
  have "handleGetArtifact demo_parse ascii_toLowerCase demo_fs (demo_args ''console'' (Some ''error'') None)
          = Inr ''[ERROR] boom''"
    using filter_then_positive_limit_keeps_most_recent
        [where fs = demo_fs and a = "demo_args ''console'' (Some ''error'') None" and es = demo_dir
           and n = None and content = demo_console and parse = demo_parse and f = "''error''"
           and toLowerCase = ascii_toLowerCase]
    by (simp only: demo_dir_lookup ascii_toLowerCase_Nil n1 s1) simp
  moreover have "handleGetArtifact demo_parse ascii_toLowerCase demo_fs (demo_args ''console'' (Some ''O'') (Some (Num 1)))
          = Inr ''[ERROR] boom''"
    using filter_then_positive_limit_keeps_most_recent
        [where fs = demo_fs and a = "demo_args ''console'' (Some ''O'') (Some (Num 1))" and es = demo_dir
           and n = "Some (nat \<lfloor>1::rat\<rfloor>)" and content = demo_console and parse = demo_parse and f = "''O''"
           and toLowerCase = ascii_toLowerCase]
    by (simp only: demo_dir_lookup ascii_toLowerCase_Nil n1 s2) simp
  moreover have "handleGetArtifact demo_parse ascii_toLowerCase demo_fs (demo_args ''actions'' None (Some (Num 1)))
       = Inr (stringify (JArr [JObj [(''type'', JStr ''step:end''), (''name'', JStr ''open_example''), (''time'', JNum 1002)]]))"
    using filter_then_positive_limit_keeps_most_recent
        [where fs = demo_fs and a = "demo_args ''actions'' None (Some (Num 1))" and es = demo_dir
           and n = "Some (nat \<lfloor>1::rat\<rfloor>)" and content = "stringify (JArr demo_events)"
           and parse = demo_parse and items = demo_events and toLowerCase = ascii_toLowerCase]
    by (simp only: demo_dir_lookup ascii_toLowerCase_Nil s3) simp
  ultimately show ?thesis by simp
qed

text \<open>
  As claim C7 is written, a limit of \<open>0\<close> would keep the most recent \<open>0\<close> entries, that
  is none. The handler returns all three recorded events: \<open>0\<close> is falsy, so the test
  \<^verbatim>\<open>if (limit)\<close> skips the slice.
\<close>

theorem limit_zero_counterexample:
  "handleGetArtifact demo_parse ascii_toLowerCase demo_fs (demo_args ''actions'' None (Some (Num 0)))
     \<noteq> Inr (stringify (JArr (spec_slice ascii_toLowerCase None (Some 0) stringify demo_events)))"
  by code_simp

text \<open>
  A line log without a filter is outside the statement above. Every line that
  \<^verbatim>\<open>runTest\<close> appends ends with a line feed, so \<^verbatim>\<open>split('\n')\<close> yields an empty last
  piece, which \<^verbatim>\<open>slice(-limit)\<close> counts: on the two-line log a limit of 1 returns the
  empty string and a limit of 2 returns the last line only.
\<close>

lemma unfiltered_limit_counts_the_final_newline:
  "handleGetArtifact demo_parse ascii_toLowerCase demo_fs (demo_args ''console'' None (Some (Num 1))) = Inr ''''
   \<and> handleGetArtifact demo_parse ascii_toLowerCase demo_fs (demo_args ''console'' None (Some (Num 2)))
       = Inr (''[ERROR] boom'' @ [CHR 0x0A])"
  by code_simp

subsection \<open>The artifact index\<close>

text \<open>
  Claim C9. The artifact index is a function of the directory's current contents: two
  listings of the directory with the same set of file names (in whatever order
  \<^verbatim>\<open>readdirSync\<close> returns them, with whatever file contents, in whatever file system
  around them) give the same index. In particular two calls on an unchanged directory give
  identical indexes.
\<close>

theorem index_determined_by_directory_contents:
  assumes "fs1 d = Some es1" and "fs2 d = Some es2"
    and "distinct (map fst es1)" and "distinct (map fst es2)"
    and "set (map fst es1) = set (map fst es2)"
  shows "buildArtifactIndex fs1 d = buildArtifactIndex fs2 d"
proof -
  let ?P = "\<lambda>f. suffix ''.png'' f"
  have "sort (filter ?P (map fst es1)) = sort (filter ?P (map fst es2))"
    using assms(3-5) by (intro sort_distinct_set) (auto simp: distinct_filter)
  then show ?thesis
    using assms(1,2,5) by (simp add: buildArtifactIndex_def Let_def)
qed

theorem index_determined_by_directory_contents_witness:
  "buildArtifactIndex demo_fs ''runs/2025-07-31-22-35-15''
     = buildArtifactIndex demo_fs_reordered ''runs/2025-07-31-22-35-15''
   \<and> buildArtifactIndex demo_fs ''runs/2025-07-31-22-35-15''
     = Inr \<lparr> idx_runId = ''2025-07-31-22-35-15'', idx_artifactsDir = ''runs/2025-07-31-22-35-15'',
             screenshots = [''a.png'', ''b.png''], logs_console = Some ''console.log'',
             logs_network = None, logs_actions = Some ''actions.json'', trace = Some ''trace.zip'' \<rparr>"
proof -
  have v: "buildArtifactIndex demo_fs ''runs/2025-07-31-22-35-15''
     = Inr \<lparr> idx_runId = ''2025-07-31-22-35-15'', idx_artifactsDir = ''runs/2025-07-31-22-35-15'',
             screenshots = [''a.png'', ''b.png''], logs_console = Some ''console.log'',
             logs_network = None, logs_actions = Some ''actions.json'', trace = Some ''trace.zip'' \<rparr>"
    by code_simp
  have "buildArtifactIndex demo_fs ''runs/2025-07-31-22-35-15''
     = buildArtifactIndex demo_fs_reordered ''runs/2025-07-31-22-35-15''"
    by (rule index_determined_by_directory_contents
          [of demo_fs _ demo_dir demo_fs_reordered demo_dir_reordered])
       (auto simp: demo_fs_def demo_fs_reordered_def demo_dir_def demo_dir_reordered_def)
  with v show ?thesis by simp
qed

subsection \<open>A limit that does not limit\<close>

text \<open>
  Claim C10. A limit of \<open>0\<close>, \<open>NaN\<close>, \<open>Infinity\<close> or \<open>-Infinity\<close> is treated as no
  limit, by the tool handler and by the HTTP route (there the limit is the number that the
  query string converts to): each answers as it does without a limit, and that answer holds
  every entry that survives the filter. For a console or network log it is the whole content
  of the file when there is no filter, and all the lines that match when there is a
  (non-empty) filter; for an actions log it is all the action records that match the filter,
  all the records when there is none. The route answers with status 200.
\<close>

theorem zero_or_nonfinite_limit_returns_all:
  assumes l: "l = Num 0 \<or> \<not> isFinite l" and lim: "limit a = Some l" and num: "toNumber s = l"
  shows "handleGetArtifact parse toLowerCase fs a = handleGetArtifact parse toLowerCase fs (a\<lparr>limit := None\<rparr>)
     \<and> logRoute parse toLowerCase toNumber fs r k g (Some s) = logRoute parse toLowerCase toNumber fs r k g None
     \<and> (fs (resolve_runs (runId a)) = Some es \<and> toLowerCase [] = [] \<longrightarrow>
          ((kind a = ''console'' \<and> map_of es ''console.log'' = Some content
              \<or> kind a = ''network'' \<and> map_of es ''network.log'' = Some content) \<longrightarrow>
             (grep a = None \<longrightarrow>
                handleGetArtifact parse toLowerCase fs a = Inr content
                \<and> logRoute parse toLowerCase toNumber fs (runId a) (kind a) None (Some s)
                    = (200, TextBody content))
           \<and> (grep a = Some f \<and> toLowerCase f \<noteq> [] \<longrightarrow>
                handleGetArtifact parse toLowerCase fs a
                    = Inr (join_nl (filter (spec_ci_match toLowerCase f) (spec_lines content)))
                \<and> logRoute parse toLowerCase toNumber fs (runId a) (kind a) (Some f) (Some s)
                    = (200, TextBody (join_nl (filter (spec_ci_match toLowerCase f) (spec_lines content))))))
        \<and> (kind a = ''actions'' \<and> map_of es ''actions.json'' = Some content
              \<and> parse content = Inr (JArr items) \<longrightarrow>
             handleGetArtifact parse toLowerCase fs a
                 = Inr (stringify (JArr (spec_slice toLowerCase (grep a) None stringify items)))
             \<and> logRoute parse toLowerCase toNumber fs (runId a) ''actions'' (grep a) (Some s)
                 = (200, JsonBody (JArr (spec_slice toLowerCase (grep a) None stringify items)))))"
proof -
  have n: "limit_of (limit a) = None"
    using l lim by (simp add: limit_of_ineffective)
  have t: "limit_of (Some (toNumber s)) = None"
    unfolding num using l by (rule limit_of_ineffective)
  have q: "limit_of (query_limit toNumber (Some s)) = None"
    by (cases "truthy_str s") (simp_all add: query_limit_def limit_of_None t)
  have q0: "limit_of (query_limit toNumber None) = None"
    by (simp add: query_limit_def limit_of_None)
  have eq1: "handleGetArtifact parse toLowerCase fs a = handleGetArtifact parse toLowerCase fs (a\<lparr>limit := None\<rparr>)"
    by (rule handleGetArtifact_cong) (simp_all add: n limit_of_None)
  have eq2: "logRoute parse toLowerCase toNumber fs r k g (Some s) = logRoute parse toLowerCase toNumber fs r k g None"
    by (rule logRoute_cong) (simp only: q q0)
  have rest: "((kind a = ''console'' \<and> map_of es ''console.log'' = Some content
              \<or> kind a = ''network'' \<and> map_of es ''network.log'' = Some content) \<longrightarrow>
             (grep a = None \<longrightarrow>
                handleGetArtifact parse toLowerCase fs a = Inr content
                \<and> logRoute parse toLowerCase toNumber fs (runId a) (kind a) None (Some s)
                    = (200, TextBody content))
           \<and> (grep a = Some f \<and> toLowerCase f \<noteq> [] \<longrightarrow>
                handleGetArtifact parse toLowerCase fs a
                    = Inr (join_nl (filter (spec_ci_match toLowerCase f) (spec_lines content)))
                \<and> logRoute parse toLowerCase toNumber fs (runId a) (kind a) (Some f) (Some s)
                    = (200, TextBody (join_nl (filter (spec_ci_match toLowerCase f) (spec_lines content))))))
        \<and> (kind a = ''actions'' \<and> map_of es ''actions.json'' = Some content
              \<and> parse content = Inr (JArr items) \<longrightarrow>
             handleGetArtifact parse toLowerCase fs a
                 = Inr (stringify (JArr (spec_slice toLowerCase (grep a) None stringify items)))
             \<and> logRoute parse toLowerCase toNumber fs (runId a) ''actions'' (grep a) (Some s)
                 = (200, JsonBody (JArr (spec_slice toLowerCase (grep a) None stringify items))))"
    if dir: "fs (resolve_runs (runId a)) = Some es" and lc: "toLowerCase [] = []"
  proof (intro conjI impI)
    assume k: "kind a = ''console'' \<and> map_of es ''console.log'' = Some content
              \<or> kind a = ''network'' \<and> map_of es ''network.log'' = Some content"
    then obtain fl where fl: "kind a = ''console'' \<and> fl = ''console.log'' \<or> kind a = ''network'' \<and> fl = ''network.log''"
      and m: "map_of es fl = Some content" by blast
    note h = lines_result [of fs a es fl content parse toLowerCase, OF dir fl m]
    {
      assume g: "grep a = None"
      show "handleGetArtifact parse toLowerCase fs a = Inr content"
        unfolding h n g by (simp add: join_split_nl)
      show "logRoute parse toLowerCase toNumber fs (runId a) (kind a) None (Some s) = (200, TextBody content)"
        unfolding route_lines_result [of fs "runId a" es "kind a" fl content toLowerCase parse toNumber None "Some s",
            OF dir fl m lc] q
        by (simp add: join_split_nl)
    }
    {
      assume g: "grep a = Some f \<and> toLowerCase f \<noteq> []"
      have lines: "filter (\<lambda>x. spec_ci_match toLowerCase f x) (split_nl content)
                 = filter (spec_ci_match toLowerCase f) (spec_lines content)"
        using filter_split_lines [of "spec_ci_match toLowerCase f" content]
          spec_ci_match_empty_line [of toLowerCase f] lc g by simp
      show "handleGetArtifact parse toLowerCase fs a
              = Inr (join_nl (filter (spec_ci_match toLowerCase f) (spec_lines content)))"
        unfolding h n using g lines by simp
      show "logRoute parse toLowerCase toNumber fs (runId a) (kind a) (Some f) (Some s)
              = (200, TextBody (join_nl (filter (spec_ci_match toLowerCase f) (spec_lines content))))"
        unfolding route_lines_result [of fs "runId a" es "kind a" fl content toLowerCase parse toNumber "Some f" "Some s",
            OF dir fl m lc] q
        using lines by simp
    }
  next
    assume k: "kind a = ''actions'' \<and> map_of es ''actions.json'' = Some content \<and> parse content = Inr (JArr items)"
    show "handleGetArtifact parse toLowerCase fs a
            = Inr (stringify (JArr (spec_slice toLowerCase (grep a) None stringify items)))"
      using actions_result [of fs a es content parse items toLowerCase] dir k n
      by (simp add: spec_slice_def)
    show "logRoute parse toLowerCase toNumber fs (runId a) ''actions'' (grep a) (Some s)
            = (200, JsonBody (JArr (spec_slice toLowerCase (grep a) None stringify items)))"
      using route_actions_result [of fs "runId a" es content parse items toLowerCase toNumber "grep a" "Some s"]
        dir k lc q
      by (simp add: spec_slice_def)
  qed
  from eq1 eq2 rest show ?thesis by blast
qed

theorem zero_or_nonfinite_limit_returns_all_witness:
  "(Num 0 = Num 0 \<or> \<not> isFinite (Num 0)) \<and> demo_Number ''0'' = Num 0
   \<and> handleGetArtifact demo_parse ascii_toLowerCase demo_fs (demo_args ''console'' (Some ''ERROR'') (Some (Num 0)))
       = Inr ''[ERROR] boom''
   \<and> logRoute demo_parse ascii_toLowerCase demo_Number demo_fs ''2025-07-31-22-35-15'' ''console''
         (Some ''ERROR'') (Some ''0'')
       = (200, TextBody ''[ERROR] boom'')
   \<and> handleGetArtifact demo_parse ascii_toLowerCase demo_fs (demo_args ''console'' None (Some (Num 0)))
       = Inr demo_console
   \<and> handleGetArtifact demo_parse ascii_toLowerCase demo_fs (demo_args ''actions'' None (Some NaN))
       = Inr (stringify (JArr demo_events))
   \<and> logRoute demo_parse ascii_toLowerCase demo_Number demo_fs ''2025-07-31-22-35-15'' ''actions''
         None (Some ''Infinity'')
       = (200, JsonBody (JArr demo_events))"
proof -
  have num: "demo_Number ''0'' = Num 0" "demo_Number ''Infinity'' = PosInf"
    by (simp_all add: demo_Number_def)
  have ne: "ascii_toLowerCase ''ERROR'' \<noteq> []"
    by (simp add: ascii_toLowerCase_def)
  have rid: "runId (demo_args k g l) = ''2025-07-31-22-35-15''" for k g l
    by (simp add: demo_args_def)
  have dd: "demo_fs (resolve_runs ''2025-07-31-22-35-15'') = Some demo_dir"
    by (simp add: demo_fs_def resolve_runs_def)
  have s1: "join_nl (filter (spec_ci_match ascii_toLowerCase ''ERROR'') (spec_lines demo_console)) = ''[ERROR] boom''"
    by code_simp
  have s3: "spec_slice ascii_toLowerCase None None stringify demo_events = demo_events"
    by (simp add: spec_slice_def)
  note t1 = zero_or_nonfinite_limit_returns_all
      [where l = "Num 0" and a = "demo_args ''console'' (Some ''ERROR'') (Some (Num 0))"
         and toNumber = demo_Number and s = "''0''" and fs = demo_fs and es = demo_dir
         and toLowerCase = ascii_toLowerCase and content = demo_console and f = "''ERROR''"
         and parse = demo_parse]
  note t2 = zero_or_nonfinite_limit_returns_all
      [where l = "Num 0" and a = "demo_args ''console'' None (Some (Num 0))"
         and toNumber = demo_Number and s = "''0''" and fs = demo_fs and es = demo_dir
         and toLowerCase = ascii_toLowerCase and content = demo_console
         and parse = demo_parse]
  note t3 = zero_or_nonfinite_limit_returns_all
      [where l = NaN and a = "demo_args ''actions'' None (Some NaN)"
         and toNumber = "\<lambda>s. NaN" and fs = demo_fs and es = demo_dir
         and toLowerCase = ascii_toLowerCase and content = "stringify (JArr demo_events)"
         and items = demo_events and parse = demo_parse]
  note t4 = zero_or_nonfinite_limit_returns_all
      [where l = PosInf and a = "demo_args ''actions'' None (Some PosInf)"
         and toNumber = demo_Number and s = "''Infinity''" and fs = demo_fs and es = demo_dir
         and toLowerCase = ascii_toLowerCase and content = "stringify (JArr demo_events)"
         and items = demo_events and parse = demo_parse]
  have a1: "handleGetArtifact demo_parse ascii_toLowerCase demo_fs (demo_args ''console'' (Some ''ERROR'') (Some (Num 0)))
       = Inr ''[ERROR] boom''"
    and a2: "logRoute demo_parse ascii_toLowerCase demo_Number demo_fs ''2025-07-31-22-35-15'' ''console''
         (Some ''ERROR'') (Some ''0'') = (200, TextBody ''[ERROR] boom'')"
    using t1 [THEN conjunct2, THEN conjunct2] by (simp_all only: demo_dir_lookup ascii_toLowerCase_Nil num ne rid dd s1) simp_all
  have a3: "handleGetArtifact demo_parse ascii_toLowerCase demo_fs (demo_args ''console'' None (Some (Num 0)))
       = Inr demo_console"
    using t2 [THEN conjunct2, THEN conjunct2] by (simp only: demo_dir_lookup ascii_toLowerCase_Nil num rid dd) simp
  have a4: "handleGetArtifact demo_parse ascii_toLowerCase demo_fs (demo_args ''actions'' None (Some NaN))
       = Inr (stringify (JArr demo_events))"
    using t3 [THEN conjunct2, THEN conjunct2] by (simp only: demo_dir_lookup ascii_toLowerCase_Nil rid dd s3) simp
  have a5: "logRoute demo_parse ascii_toLowerCase demo_Number demo_fs ''2025-07-31-22-35-15'' ''actions''
         None (Some ''Infinity'') = (200, JsonBody (JArr demo_events))"
    using t4 [THEN conjunct2, THEN conjunct2] by (simp only: demo_dir_lookup ascii_toLowerCase_Nil num rid dd s3) simp
  from a1 a2 a3 a4 a5 num show ?thesis by simp
qed

section \<open>Properties of the run engine\<close>

subsection \<open>What a step appends to the action events\<close>

lemma push_actions: "actions (push E mk s) = actions s @ [mk (now E (length (actions s)))]"
  by (simp add: push_def)

lemma screenshot_actions:
  "actions (snd (screenshot E nm s)) = actions s @ [Screenshot nm (now E (length (actions s)))]"
  by (simp add: screenshot_def Let_def push_def split: option.split)

lemma screenshot_result:
  "fst (screenshot E nm s) = pageScreenshot E (length (actions s))"
  by (simp add: screenshot_def Let_def split: option.split)

lemma dispatch_actions: "actions (dispatch E ev s) = actions s"
  by (cases ev) (simp_all add: on_console_def on_requestfinished_def Let_def split: option.split)

lemma step_actions:
  assumes before: "pageScreenshot E (Suc (length (actions s))) = None"
    and body: "fn (snd (screenshot E (''before_'' @ nm) (push E (StepStart nm) s))) = (rb, s3)"
  shows "actions (snd (step E nm fn s)) =
           actions s3 @
           (case rb of
              None \<Rightarrow> [StepEnd nm (now E (length (actions s3))),
                        Screenshot (''after_'' @ nm) (now E (Suc (length (actions s3))))]
            | Some e \<Rightarrow> [StepError nm (String_of e) (now E (length (actions s3))),
                          Screenshot (''on_error_'' @ nm) (now E (Suc (length (actions s3)))),
                          Screenshot (''after_'' @ nm) (now E (Suc (Suc (length (actions s3)))))])"
proof -
  let ?s1 = "push E (StepStart nm) s"
  obtain r2 s2 where sh: "screenshot E (''before_'' @ nm) ?s1 = (r2, s2)"
    by (cases "screenshot E (''before_'' @ nm) ?s1")
  have "r2 = None"
    using screenshot_result [of E "''before_'' @ nm" ?s1] sh before by (simp add: push_actions)
  with sh body have b: "fn s2 = (rb, s3)" and sh': "screenshot E (''before_'' @ nm) ?s1 = (None, s2)" by simp_all
  show ?thesis
  proof (cases rb)
    case None
    let ?s4 = "push E (StepEnd nm) s3"
    obtain r5 s5 where a: "screenshot E (''after_'' @ nm) ?s4 = (r5, s5)"
      by (cases "screenshot E (''after_'' @ nm) ?s4")
    have "actions s5 = actions ?s4 @ [Screenshot (''after_'' @ nm) (now E (length (actions ?s4)))]"
      using screenshot_actions [of E "''after_'' @ nm" ?s4] a by simp
    then show ?thesis
      using None b sh' a by (simp add: step_def Let_def push_actions split: option.split)
  next
    case (Some e)
    let ?s4 = "push E (StepError nm (String_of e)) s3"
    obtain r5 s5 where oe: "screenshot E (''on_error_'' @ nm) ?s4 = (r5, s5)"
      by (cases "screenshot E (''on_error_'' @ nm) ?s4")
    have a5: "actions s5 = actions ?s4 @ [Screenshot (''on_error_'' @ nm) (now E (length (actions ?s4)))]"
      using screenshot_actions [of E "''on_error_'' @ nm" ?s4] oe by simp
    let ?s6 = "case r5 of None \<Rightarrow> s5\<lparr>status := FAIL\<rparr> | Some e' \<Rightarrow> s5"
    have a6: "actions ?s6 = actions s5" by (cases r5) simp_all
    obtain r7 s7 where af: "screenshot E (''after_'' @ nm) ?s6 = (r7, s7)"
      by (cases "screenshot E (''after_'' @ nm) ?s6")
    have a7: "actions s7 = actions ?s6 @ [Screenshot (''after_'' @ nm) (now E (length (actions ?s6)))]"
      using screenshot_actions [of E "''after_'' @ nm" ?s6] af by simp
    have "snd (step E nm fn s) = s7"
      using Some b sh' oe af by (cases r5; cases r7) (simp_all add: step_def Let_def)
    then show ?thesis
      using Some a5 a6 a7 by (simp add: push_actions)
  qed
qed

lemma step_before_fails:
  assumes "pageScreenshot E (Suc (length (actions s))) = Some e"
  shows "fst (step E nm fn s) = Some e"
    and "actions (snd (step E nm fn s)) =
           actions s @ [StepStart nm (now E (length (actions s))),
                        Screenshot (''before_'' @ nm) (now E (Suc (length (actions s))))]"
  using assms by (simp_all add: step_def screenshot_def Let_def push_def)

lemma before_state_actions:
  "actions (snd (screenshot E (''before_'' @ nm) (push E (StepStart nm) s))) =
     actions s @ [StepStart nm (now E (length (actions s))),
                  Screenshot (''before_'' @ nm) (now E (Suc (length (actions s))))]"
  by (simp add: screenshot_actions push_actions)

lemma step_appends:
  assumes "\<And>s'. \<exists>evs. actions (snd (fn s')) = actions s' @ evs"
  shows "\<exists>evs. actions (snd (step E nm fn s)) = actions s @ evs"
proof (cases "pageScreenshot E (Suc (length (actions s)))")
  case (Some e)
  then show ?thesis using step_before_fails(2) [of E s e nm fn] by simp
next
  case None
  let ?s2 = "snd (screenshot E (''before_'' @ nm) (push E (StepStart nm) s))"
  obtain rb s3 where b: "fn ?s2 = (rb, s3)" by (cases "fn ?s2")
  from assms [of ?s2] b obtain evs where "actions s3 = actions ?s2 @ evs" by auto
  then show ?thesis
    using step_actions [of E s fn nm rb s3] None b before_state_actions [of E nm s] by simp
qed

lemma exec_appends:
  "\<exists>evs. actions (snd (exec E c s)) = actions s @ evs"
  "\<exists>evs. actions (snd (execs E cs s)) = actions s @ evs"
proof (induction E c s and E cs s rule: exec_execs.induct)
  case (1 E nm s)
  then show ?case by (simp add: screenshot_actions)
next
  case (2 E nm body s)
  then show ?case using step_appends [of "\<lambda>s'. execs E body s'" E nm s] by simp
next
  case (3 E e s)
  then show ?case by simp
next
  case (4 E body handler s)
  obtain r s1 where b: "execs E body s = (r, s1)" by (cases "execs E body s")
  show ?case
  proof (cases r)
    case None
    with b 4(1) show ?thesis by simp
  next
    case (Some e)
    from 4(2) [OF b [symmetric] Some] obtain evs2 where "actions (snd (execs E handler s1)) = actions s1 @ evs2" by blast
    moreover from 4(1) b obtain evs1 where "actions s1 = actions s @ evs1" by auto
    ultimately show ?thesis using b Some by simp
  qed
next
  case (5 E ev s)
  then show ?case by (simp add: dispatch_actions)
next
  case (6 E s)
  then show ?case by simp
next
  case (7 E c cs s)
  obtain r s1 where b: "exec E c s = (r, s1)" by (cases "exec E c s")
  show ?case
  proof (cases r)
    case None
    from 7(2) [OF b [symmetric] None] obtain evs2 where "actions (snd (execs E cs s1)) = actions s1 @ evs2" by blast
    moreover from 7(1) b obtain evs1 where "actions s1 = actions s @ evs1" by auto
    ultimately show ?thesis using b None by simp
  next
    case (Some e)
    with b 7(1) show ?thesis by simp
  qed
qed

lemma untimed_simps [simp]:
  "untimed (Screenshot n t) = Screenshot n 0"
  "untimed (StepStart n t) = StepStart n 0"
  "untimed (StepEnd n t) = StepEnd n 0"
  "untimed (StepError n e t) = StepError n e 0"
  by (simp_all add: untimed_def)

text \<open>
  Claim C1, amended. When the \<open>before\<close> screenshot of a step can be taken, the events of
  \<^verbatim>\<open>step(name, body)\<close> are, in this order: the \<^verbatim>\<open>step:start\<close> event, the
  \<open>before_<name>\<close> screenshot, the events \<open>evs\<close> of the body, and then, if the body
  returned, the \<^verbatim>\<open>step:end\<close> event and the \<open>after_<name>\<close> screenshot, or, if the
  body raised \<open>e\<close>, the \<^verbatim>\<open>step:error\<close> event with the text of \<open>e\<close> followed by
  the \<open>on_error_<name>\<close> screenshot.
\<close>

theorem step_events_in_order:
  assumes "pageScreenshot E (Suc (length (actions s))) = None"
  shows "\<exists>evs rest.
     map untimed (actions (snd (exec E (CallStep nm body) s)))
       = map untimed (actions s) @ [StepStart nm 0, Screenshot (''before_'' @ nm) 0] @ evs @ rest
     \<and> map untimed (actions (snd (execs E body (snd (screenshot E (''before_'' @ nm) (push E (StepStart nm) s))))))
       = map untimed (actions s) @ [StepStart nm 0, Screenshot (''before_'' @ nm) 0] @ evs
     \<and> (case fst (execs E body (snd (screenshot E (''before_'' @ nm) (push E (StepStart nm) s)))) of
          None \<Rightarrow> rest = [StepEnd nm 0, Screenshot (''after_'' @ nm) 0]
        | Some e \<Rightarrow> take 2 rest = [StepError nm (String_of e) 0, Screenshot (''on_error_'' @ nm) 0])"
proof -
  let ?s2 = "snd (screenshot E (''before_'' @ nm) (push E (StepStart nm) s))"
  obtain rb s3 where b: "execs E body ?s2 = (rb, s3)" by (cases "execs E body ?s2")
  from exec_appends(2) [of E body ?s2] b obtain evs where e: "actions s3 = actions ?s2 @ evs" by auto
  have fin: "actions (snd (exec E (CallStep nm body) s)) =
           actions s3 @
           (case rb of
              None \<Rightarrow> [StepEnd nm (now E (length (actions s3))),
                        Screenshot (''after_'' @ nm) (now E (Suc (length (actions s3))))]
            | Some e \<Rightarrow> [StepError nm (String_of e) (now E (length (actions s3))),
                          Screenshot (''on_error_'' @ nm) (now E (Suc (length (actions s3)))),
                          Screenshot (''after_'' @ nm) (now E (Suc (Suc (length (actions s3)))))])"
    using step_actions [of E s "\<lambda>s'. execs E body s'" nm rb s3] assms b by simp
  let ?rest = "map untimed (case rb of
              None \<Rightarrow> [StepEnd nm (now E (length (actions s3))),
                        Screenshot (''after_'' @ nm) (now E (Suc (length (actions s3))))]
            | Some e \<Rightarrow> [StepError nm (String_of e) (now E (length (actions s3))),
                          Screenshot (''on_error_'' @ nm) (now E (Suc (length (actions s3)))),
                          Screenshot (''after_'' @ nm) (now E (Suc (Suc (length (actions s3)))))])"
  have "map untimed (actions (snd (exec E (CallStep nm body) s)))
       = map untimed (actions s) @ [StepStart nm 0, Screenshot (''before_'' @ nm) 0] @ map untimed evs @ ?rest"
    using fin e before_state_actions [of E nm s] by simp
  moreover have "map untimed (actions (snd (execs E body ?s2)))
       = map untimed (actions s) @ [StepStart nm 0, Screenshot (''before_'' @ nm) 0] @ map untimed evs"
    using b e before_state_actions [of E nm s] by simp
  moreover have "(case fst (execs E body ?s2) of
          None \<Rightarrow> ?rest = [StepEnd nm 0, Screenshot (''after_'' @ nm) 0]
        | Some e \<Rightarrow> take 2 ?rest = [StepError nm (String_of e) 0, Screenshot (''on_error_'' @ nm) 0])"
    using b by (cases rb) simp_all
  ultimately show ?thesis by blast
qed

theorem step_events_in_order_witness:
  "pageScreenshot (demo_env []) (Suc (length (actions initial_state))) = None
   \<and> map untimed (actions (snd (exec (demo_env []) (CallStep ''open_example'' [Throw (Error ''boom'')]) initial_state)))
       = [StepStart ''open_example'' 0, Screenshot ''before_open_example'' 0,
          StepError ''open_example'' ''Error: boom'' 0, Screenshot ''on_error_open_example'' 0,
          Screenshot ''after_open_example'' 0]
   \<and> (\<exists>evs rest.
     map untimed (actions (snd (exec (demo_env []) (CallStep ''open_example'' [Throw (Error ''boom'')]) initial_state)))
       = map untimed (actions initial_state) @ [StepStart ''open_example'' 0, Screenshot (''before_'' @ ''open_example'') 0] @ evs @ rest
     \<and> take 2 rest = [StepError ''open_example'' (String_of (Error ''boom'')) 0, Screenshot (''on_error_'' @ ''open_example'') 0])"
proof -
  have h: "pageScreenshot (demo_env []) (Suc (length (actions initial_state))) = None"
    by (simp add: demo_env_def)
  have v: "map untimed (actions (snd (exec (demo_env []) (CallStep ''open_example'' [Throw (Error ''boom'')]) initial_state)))
       = [StepStart ''open_example'' 0, Screenshot ''before_open_example'' 0,
          StepError ''open_example'' ''Error: boom'' 0, Screenshot ''on_error_open_example'' 0,
          Screenshot ''after_open_example'' 0]"
    by code_simp
  have f: "fst (execs (demo_env []) [Throw (Error ''boom'')]
             (snd (screenshot (demo_env []) (''before_'' @ ''open_example'') (push (demo_env []) (StepStart ''open_example'') initial_state))))
           = Some (Error ''boom'')"
    by simp
  from step_events_in_order [OF h, of "''open_example''" "[Throw (Error ''boom'')]"]
  show ?thesis using h v unfolding f by auto
qed

text \<open>
  As claim C1 is written, the \<open>before\<close> screenshot would come first. The code pushes
  \<^verbatim>\<open>step:start\<close> first, on the successful path and on the failing one.
\<close>

theorem step_start_precedes_before_screenshot_counterexample:
  "map untimed (actions (snd (exec (demo_env []) (CallStep ''open_example'' []) initial_state)))
     \<noteq> spec_step_order ''open_example'' [] None
   \<and> map untimed (actions (snd (exec (demo_env []) (CallStep ''open_example'' [Throw (Error ''boom'')]) initial_state)))
     \<noteq> spec_step_order ''open_example'' [] (Some (Error ''boom''))"
  by code_simp

subsection \<open>When a run fails\<close>

text \<open>
  The status is \<open>FAIL\<close> only if the engine caught an exception or a \<^verbatim>\<open>step:error\<close>
  was recorded; and as long as every screenshot can be taken, it is \<open>FAIL\<close> exactly then.
\<close>

lemma screenshot_status: "status (snd (screenshot E nm s)) = status s"
  by (simp add: screenshot_def Let_def push_def split: option.split)

lemma push_status: "status (push E mk s) = status s"
  by (simp add: push_def)

lemma dispatch_status: "status (dispatch E ev s) = status s"
  by (cases ev) (simp_all add: on_console_def on_requestfinished_def Let_def split: option.split)

lemma step_status:
  assumes before: "pageScreenshot E (Suc (length (actions s))) = None"
    and body: "fn (snd (screenshot E (''before_'' @ nm) (push E (StepStart nm) s))) = (rb, s3)"
  shows "status (snd (step E nm fn s)) =
           (if rb \<noteq> None \<and> pageScreenshot E (Suc (length (actions s3))) = None then FAIL else status s3)"
proof -
  let ?s1 = "push E (StepStart nm) s"
  obtain r2 s2 where sh: "screenshot E (''before_'' @ nm) ?s1 = (r2, s2)"
    by (cases "screenshot E (''before_'' @ nm) ?s1")
  have "r2 = None"
    using screenshot_result [of E "''before_'' @ nm" ?s1] sh before by (simp add: push_actions)
  with sh body have b: "fn s2 = (rb, s3)" and sh': "screenshot E (''before_'' @ nm) ?s1 = (None, s2)" by simp_all
  show ?thesis
  proof (cases rb)
    case None
    let ?s4 = "push E (StepEnd nm) s3"
    obtain r5 s5 where a: "screenshot E (''after_'' @ nm) ?s4 = (r5, s5)"
      by (cases "screenshot E (''after_'' @ nm) ?s4")
    have "status s5 = status s3"
      using screenshot_status [of E "''after_'' @ nm" ?s4] a by (simp add: push_status)
    then show ?thesis
      using None b sh' a by (simp add: step_def Let_def split: option.split)
  next
    case (Some e)
    let ?s4 = "push E (StepError nm (String_of e)) s3"
    obtain r5 s5 where oe: "screenshot E (''on_error_'' @ nm) ?s4 = (r5, s5)"
      by (cases "screenshot E (''on_error_'' @ nm) ?s4")
    have r5: "pageScreenshot E (Suc (length (actions s3))) = r5"
      using screenshot_result [of E "''on_error_'' @ nm" ?s4] oe by (simp add: push_actions)
    have st5: "status s5 = status s3"
      using screenshot_status [of E "''on_error_'' @ nm" ?s4] oe by (simp add: push_status)
    let ?s6 = "case r5 of None \<Rightarrow> s5\<lparr>status := FAIL\<rparr> | Some e' \<Rightarrow> s5"
    obtain r7 s7 where af: "screenshot E (''after_'' @ nm) ?s6 = (r7, s7)"
      by (cases "screenshot E (''after_'' @ nm) ?s6")
    have st7: "status s7 = status ?s6"
      using screenshot_status [of E "''after_'' @ nm" ?s6] af by simp
    have "snd (step E nm fn s) = s7"
      using Some b sh' oe af by (cases r5; cases r7) (simp_all add: step_def Let_def)
    then show ?thesis
      using Some st5 st7 r5 by (cases r5) simp_all
  qed
qed

lemma step_before_fails_status:
  assumes "pageScreenshot E (Suc (length (actions s))) = Some e"
  shows "status (snd (step E nm fn s)) = status s"
  using assms by (simp add: step_def screenshot_def Let_def push_def)

lemma screenshot_fail_explained: "fail_explained s \<Longrightarrow> fail_explained (snd (screenshot E nm s))"
  by (simp add: fail_explained_def screenshot_status screenshot_actions)

lemma screenshot_error_fails: "error_fails s \<Longrightarrow> error_fails (snd (screenshot E nm s))"
  by (simp add: error_fails_def screenshot_status screenshot_actions)

lemma before_state_status:
  "status (snd (screenshot E (''before_'' @ nm) (push E (StepStart nm) s))) = status s"
  by (simp add: screenshot_status push_status)

lemma step_fail_explained:
  assumes fn: "\<And>s'. fail_explained s' \<Longrightarrow> fail_explained (snd (fn s'))"
    and s: "fail_explained s"
  shows "fail_explained (snd (step E nm fn s))"
proof (cases "pageScreenshot E (Suc (length (actions s)))")
  case (Some e)
  then show ?thesis
    using s step_before_fails(2) [of E s e nm fn] step_before_fails_status [of E s e nm fn]
    by (simp add: fail_explained_def)
next
  case None
  let ?s2 = "snd (screenshot E (''before_'' @ nm) (push E (StepStart nm) s))"
  obtain rb s3 where b: "fn ?s2 = (rb, s3)" by (cases "fn ?s2")
  have "fail_explained ?s2"
    using s before_state_status [of E nm s] before_state_actions [of E nm s]
    by (simp add: fail_explained_def)
  from fn [OF this] b have s3: "fail_explained s3" by simp
  show ?thesis
    using s3 step_actions [of E s fn nm rb s3] step_status [of E s fn nm rb s3] None b
    by (cases rb) (auto simp: fail_explained_def)
qed

lemma step_error_fails:
  assumes ok: "\<And>i. pageScreenshot E i = None"
    and fn: "\<And>s'. error_fails s' \<Longrightarrow> error_fails (snd (fn s'))"
    and s: "error_fails s"
  shows "error_fails (snd (step E nm fn s))"
proof -
  let ?s2 = "snd (screenshot E (''before_'' @ nm) (push E (StepStart nm) s))"
  obtain rb s3 where b: "fn ?s2 = (rb, s3)" by (cases "fn ?s2")
  have "error_fails ?s2"
    using s before_state_status [of E nm s] before_state_actions [of E nm s]
    by (simp add: error_fails_def)
  from fn [OF this] b have s3: "error_fails s3" by simp
  show ?thesis
    using s3 step_actions [of E s fn nm rb s3] step_status [of E s fn nm rb s3] ok b
    by (cases rb) (auto simp: error_fails_def)
qed

lemma exec_fail_explained:
  "fail_explained s \<Longrightarrow> fail_explained (snd (exec E c s))"
  "fail_explained s \<Longrightarrow> fail_explained (snd (execs E cs s))"
proof (induction E c s and E cs s rule: exec_execs.induct)
  case (1 E nm s)
  then show ?case by (simp add: screenshot_fail_explained)
next
  case (2 E nm body s)
  then show ?case using step_fail_explained [of "\<lambda>s'. execs E body s'" s E nm] by simp
next
  case (3 E e s)
  then show ?case by simp
next
  case (4 E body handler s)
  obtain r s1 where b: "execs E body s = (r, s1)" by (cases "execs E body s")
  with 4(1) [OF 4(3)] have s1: "fail_explained s1" by simp
  show ?case
  proof (cases r)
    case None
    with b s1 show ?thesis by simp
  next
    case (Some e)
    from 4(2) [OF b [symmetric] Some s1] show ?thesis using b Some by simp
  qed
next
  case (5 E ev s)
  then show ?case by (simp add: fail_explained_def dispatch_actions dispatch_status)
next
  case (6 E s)
  then show ?case by simp
next
  case (7 E c cs s)
  obtain r s1 where b: "exec E c s = (r, s1)" by (cases "exec E c s")
  with 7(1) [OF 7(3)] have s1: "fail_explained s1" by simp
  show ?case
  proof (cases r)
    case None
    from 7(2) [OF b [symmetric] None s1] show ?thesis using b None by simp
  next
    case (Some e)
    with b s1 show ?thesis by simp
  qed
qed

lemma exec_error_fails:
  "(\<And>i. pageScreenshot E i = None) \<Longrightarrow> error_fails s \<Longrightarrow> error_fails (snd (exec E c s))"
  "(\<And>i. pageScreenshot E i = None) \<Longrightarrow> error_fails s \<Longrightarrow> error_fails (snd (execs E cs s))"
proof (induction E c s and E cs s rule: exec_execs.induct)
  case (1 E nm s)
  then show ?case by (simp add: screenshot_error_fails)
next
  case (2 E nm body s)
  then show ?case using step_error_fails [of E "\<lambda>s'. execs E body s'" s nm] by simp
next
  case (3 E e s)
  then show ?case by simp
next
  case (4 E body handler s)
  obtain r s1 where b: "execs E body s = (r, s1)" by (cases "execs E body s")
  with 4(1) [OF 4(3) 4(4)] have s1: "error_fails s1" by simp
  show ?case
  proof (cases r)
    case None
    with b s1 show ?thesis by simp
  next
    case (Some e)
    from 4(2) [OF b [symmetric] Some 4(3) s1] show ?thesis using b Some by simp
  qed
next
  case (5 E ev s)
  then show ?case by (simp add: error_fails_def dispatch_actions dispatch_status)
next
  case (6 E s)
  then show ?case by simp
next
  case (7 E c cs s)
  obtain r s1 where b: "exec E c s = (r, s1)" by (cases "exec E c s")
  with 7(1) [OF 7(3) 7(4)] have s1: "error_fails s1" by simp
  show ?case
  proof (cases r)
    case None
    from 7(2) [OF b [symmetric] None 7(3) s1] show ?thesis using b None by simp
  next
    case (Some e)
    with b s1 show ?thesis by simp
  qed
qed

lemma tryBlock_state:
  assumes "P s" and "\<And>runner. P (snd (execs E runner s))"
  shows "P (snd (snd (tryBlock E p s)))"
proof -
  have "snd (snd (tryBlock E p s)) = s \<or> (\<exists>runner. snd (snd (tryBlock E p s)) = snd (execs E runner s))"
    by (simp add: tryBlock_def Let_def split: option.split sum.split export.split prod.split
          del: candidate.simps) (metis snd_conv)
  with assms show ?thesis by auto
qed

lemma runTest_fail_needs_cause:
  assumes "runTest E p = (Inr res, Some rep)"
  shows "r_status res = status (final_state rep)"
    and "status (final_state rep) = FAIL \<Longrightarrow>
           caught rep \<noteq> None \<or> list_ex is_step_error (actions (final_state rep))"
    and "(\<And>i. pageScreenshot E i = None) \<Longrightarrow>
           (status (final_state rep) = FAIL \<longleftrightarrow>
              caught rep \<noteq> None \<or> list_ex is_step_error (actions (final_state rep)))"
proof -
  obtain r h s1 where t: "tryBlock E p initial_state = (r, h, s1)" by (cases "tryBlock E p initial_state")
  let ?s2 = "case r of None \<Rightarrow> s1 | Some err \<Rightarrow> s1\<lparr>status := FAIL\<rparr>"
  from assms t have rep: "caught rep = r" "final_state rep = ?s2" and res: "r_status res = status ?s2"
    by (auto simp: runTest_def Let_def split: if_splits option.splits)
  show "r_status res = status (final_state rep)" using rep res by simp
  have i0: "fail_explained initial_state" "error_fails initial_state"
    by (simp_all add: fail_explained_def error_fails_def initial_state_def)
  have s1: "fail_explained s1"
    using tryBlock_state [of fail_explained initial_state E p] t i0 exec_fail_explained(2) by simp
  show "status (final_state rep) = FAIL \<Longrightarrow>
           caught rep \<noteq> None \<or> list_ex is_step_error (actions (final_state rep))"
    using rep s1 by (cases r) (auto simp: fail_explained_def)
  assume ok: "\<And>i. pageScreenshot E i = None"
  have "error_fails s1"
    using tryBlock_state [of error_fails initial_state E p] t i0 exec_error_fails(2) [OF ok] by simp
  then show "status (final_state rep) = FAIL \<longleftrightarrow>
              caught rep \<noteq> None \<or> list_ex is_step_error (actions (final_state rep))"
    using rep s1 by (cases r) (auto simp: fail_explained_def error_fails_def)
qed

text \<open>
  Claim C2 says that a completed run is \<open>FAIL\<close> as soon as the body of one step has
  raised. In the run \<open>env_page_closed\<close> the body of the step raises and the
  \<^verbatim>\<open>step:error\<close> event is recorded, but the \<open>on_error\<close> screenshot is rejected
  before \<^verbatim>\<open>status = 'FAIL'\<close> is reached, the script catches the exception, the engine
  catches nothing, and the run returns \<open>PASS\<close>.
\<close>

theorem swallowed_step_failure_still_passes:
  "fst (runTest env_page_closed ''tests/example.spec.ts'')
     = Inr \<lparr>r_status = PASS, r_artifactsDir = ''runs/2025-07-31-22-35-15'',
            r_runId = ''2025-07-31-22-35-15'', r_criticalErrors = []\<rparr>
   \<and> map_option caught (snd (runTest env_page_closed ''tests/example.spec.ts'')) = Some None
   \<and> map_option (\<lambda>rep. map untimed (actions (final_state rep))) (snd (runTest env_page_closed ''tests/example.spec.ts''))
     = Some [StepStart ''checkout'' 0, Screenshot ''before_checkout'' 0,
             StepError ''checkout'' ''Error: Target page closed'' 0,
             Screenshot ''on_error_checkout'' 0, Screenshot ''after_checkout'' 0]"
  by code_simp

text \<open>
  Claim C4 says that every invocation of a step records exactly one of \<^verbatim>\<open>step:end\<close>
  and \<^verbatim>\<open>step:error\<close> after its \<^verbatim>\<open>step:start\<close>. In the run
  \<open>env_no_screenshots\<close> the \<open>before\<close> screenshot is rejected outside the
  \<^verbatim>\<open>try\<close> of the step, and the persisted sequence holds the \<^verbatim>\<open>step:start\<close>
  with neither of the two.
\<close>

theorem step_without_end_or_error:
  "map_option (\<lambda>rep. map_option (map untimed) (actionsJson (cleanup_done rep)))
       (snd (runTest env_no_screenshots ''tests/example.spec.ts''))
     = Some (Some [StepStart ''open_example'' 0, Screenshot ''before_open_example'' 0])"
  by code_simp

subsection \<open>Finalization\<close>

text \<open>
  Once the trace has been stopped, a failure to close the page, the session or the browser
  changes nothing: every open resource is closed in turn and the events are written.
\<close>

lemma finalize_tolerates_close_failures:
  assumes "context_open h \<longrightarrow> tracingStop E = None"
  shows "raised (finalize E h s) = None"
    and "attempted (finalize E h s) =
           (if context_open h then [TraceStop] else []) @ (if page_open h then [PageClose] else [])
           @ (if context_open h then [ContextClose] else []) @ (if browser_open h then [BrowserClose] else [])
           @ [WriteActions]"
    and "writeFile E = None \<Longrightarrow> actionsJson (finalize E h s) = Some (actions s)"
  using assms by (auto simp: finalize_def quietly_def Let_def split: option.split)

text \<open>
  Claim C3 says that a failure while stopping the trace does not keep the engine from
  closing the page, the session and the browser and from writing the action events. In the
  run \<open>env_trace_stop_fails\<close> the rejected \<^verbatim>\<open>context.tracing.stop\<close> is the only
  cleanup attempted: nothing is closed, \<^verbatim>\<open>actions.json\<close> is not written, and
  \<^verbatim>\<open>runTest\<close> throws.
\<close>

theorem trace_stop_failure_skips_cleanup:
  "fst (runTest env_trace_stop_fails ''tests/example.spec.ts'') = Inl (Error ''Must start tracing before stopping'')
   \<and> map_option (\<lambda>rep. attempted (cleanup_done rep)) (snd (runTest env_trace_stop_fails ''tests/example.spec.ts''))
     = Some [TraceStop]
   \<and> map_option (\<lambda>rep. actionsJson (cleanup_done rep)) (snd (runTest env_trace_stop_fails ''tests/example.spec.ts''))
     = Some None"
  by code_simp

subsection \<open>Critical errors\<close>

lemma execs_append:
  "execs E (xs @ ys) s =
     (case execs E xs s of (None, s1) \<Rightarrow> execs E ys s1 | (Some e, s1) \<Rightarrow> (Some e, s1))"
  by (induction xs arbitrary: s) (auto split: prod.split option.split)

lemma page_errors_erased:
  "execs E (without_page_errors c) s = exec E c s"
  "execs E (without_page_errors_list cs) s = execs E cs s"
proof (induction c and cs arbitrary: s and s rule: without_page_errors_without_page_errors_list.induct)
  case (6 nm body)
  have "(\<lambda>s'. execs E (without_page_errors_list body) s') = (\<lambda>s'. execs E body s')"
    using 6 by auto
  then show ?case by (simp split: prod.split option.split)
next
  case (8 body handler)
  then show ?case by (simp split: prod.split option.split)
next
  case (10 c cs)
  then show ?case by (simp add: execs_append split: prod.split option.split)
qed (simp_all split: prod.split option.split)

lemma push_env: "now E' = now E \<Longrightarrow> push E' mk s = push E mk s"
  by (simp add: push_def)

lemma screenshot_env:
  "now E' = now E \<Longrightarrow> pageScreenshot E' = pageScreenshot E \<Longrightarrow> screenshot E' nm s = screenshot E nm s"
  by (simp add: screenshot_def push_def)

lemma step_env:
  assumes "now E' = now E" and "pageScreenshot E' = pageScreenshot E"
  shows "step E' nm fn s = step E nm fn s"
  unfolding step_def push_env [OF assms(1)] screenshot_env [OF assms] ..

lemma execs_pointwise:
  assumes "\<And>c s. c \<in> set cs \<Longrightarrow> exec E' c s = exec E c s"
  shows "execs E' cs s = execs E cs s"
  using assms
proof (induction cs arbitrary: s)
  case Nil
  show ?case by simp
next
  case (Cons c cs)
  have h: "exec E' c s = exec E c s" by (rule Cons.prems) simp
  have t: "execs E' cs s1 = execs E cs s1" for s1
    by (rule Cons.IH) (rule Cons.prems, simp)
  show ?case by (simp add: h t split: prod.split option.split)
qed

lemma dispatch_env:
  assumes "isoNow E' = isoNow E" and "appendFileSync E' = appendFileSync E"
  shows "dispatch E' ev s = dispatch E ev s"
  by (cases ev) (simp_all add: on_console_def on_requestfinished_def assms)

lemma exec_env:
  assumes n: "now E' = now E" and p: "pageScreenshot E' = pageScreenshot E"
    and i: "isoNow E' = isoNow E" and a: "appendFileSync E' = appendFileSync E"
  shows "exec E' c s = exec E c s"
proof (induction c arbitrary: s)
  case (CallScreenshot nm)
  show ?case by (simp add: screenshot_env [OF n p])
next
  case (CallStep nm body)
  have "execs E' body = execs E body"
    by (rule ext, rule execs_pointwise) (rule CallStep.IH)
  then show ?case by (simp add: step_env [OF n p])
next
  case (Throw e)
  show ?case by simp
next
  case (TryCatch body handler)
  have b: "execs E' body s' = execs E body s'" for s'
    by (rule execs_pointwise) (rule TryCatch.IH(1))
  have h: "execs E' handler s' = execs E handler s'" for s'
    by (rule execs_pointwise) (rule TryCatch.IH(2))
  show ?case by (simp add: b h split: prod.split option.split)
next
  case (PageEmits ev)
  show ?case by (simp add: dispatch_env [OF i a])
qed

lemma execs_env:
  assumes "now E' = now E" and "pageScreenshot E' = pageScreenshot E"
    and "isoNow E' = isoNow E" and "appendFileSync E' = appendFileSync E"
  shows "execs E' cs s = execs E cs s"
  by (rule execs_pointwise) (rule exec_env [OF assms])

lemma candidate_without_page_errors:
  "candidate \<lparr>export_default = export_without_page_errors d, export_run = export_without_page_errors r,
              export_runner = export_without_page_errors n\<rparr>
     = export_without_page_errors (candidate \<lparr>export_default = d, export_run = r, export_runner = n\<rparr>)"
  by (cases d; cases r) simp_all

lemma tryBlock_without_page_errors:
  "tryBlock (env_without_page_errors E) p s = tryBlock E p s"
proof -
  let ?E = "env_without_page_errors E"
  have ex: "execs ?E cs s' = execs E cs s'" for cs s'
    by (rule execs_env) (simp_all add: env_without_page_errors_def)
  have f: "launch ?E = launch E" "newContext ?E = newContext E" "newPage ?E = newPage E"
    "tracingStart ?E = tracingStart E" "goto ?E = goto E"
    by (simp_all add: env_without_page_errors_def)
  show ?thesis
  proof (cases "importModule E p")
    case (Inl e)
    then have ie: "importModule ?E p = Inl e" by (simp add: env_without_page_errors_def)
    show ?thesis unfolding tryBlock_def f ie Inl ex ..
  next
    case (Inr m)
    obtain d r n where m: "m = \<lparr>export_default = d, export_run = r, export_runner = n\<rparr>"
      by (cases m) auto
    let ?m = "\<lparr>export_default = export_without_page_errors d, export_run = export_without_page_errors r,
              export_runner = export_without_page_errors n\<rparr>"
    have i: "importModule ?E p = Inr ?m"
      using Inr m by (simp add: env_without_page_errors_def)
    have c: "candidate ?m = export_without_page_errors (candidate m)"
      unfolding m by (rule candidate_without_page_errors)
    show ?thesis
    proof (cases "candidate m")
      case (Callable runner)
      show ?thesis
        unfolding tryBlock_def f i Inr sum.case c Callable export_without_page_errors.simps export.case
          ex page_errors_erased ..
    next
      case Undefined
      show ?thesis
        unfolding tryBlock_def f i Inr sum.case c Undefined export_without_page_errors.simps export.case ..
    next
      case Null
      show ?thesis
        unfolding tryBlock_def f i Inr sum.case c Null export_without_page_errors.simps export.case ..
    next
      case NotCallable
      show ?thesis
        unfolding tryBlock_def f i Inr sum.case c NotCallable export_without_page_errors.simps export.case ..
    qed
  qed
qed

lemma finalize_without_page_errors:
  "finalize (env_without_page_errors E) h s = finalize E h s"
proof -
  have f: "tracingStop (env_without_page_errors E) = tracingStop E"
    "pageClose (env_without_page_errors E) = pageClose E"
    "contextClose (env_without_page_errors E) = contextClose E"
    "browserClose (env_without_page_errors E) = browserClose E"
    "writeFile (env_without_page_errors E) = writeFile E"
    by (simp_all add: env_without_page_errors_def)
  show ?thesis unfolding finalize_def f ..
qed

lemma runTest_without_page_errors:
  "runTest (env_without_page_errors E) p = runTest E p"
proof -
  have f: "scriptExists (env_without_page_errors E) = scriptExists E"
    "mkdir (env_without_page_errors E) = mkdir E"
    "timestampId (env_without_page_errors E) = timestampId E"
    by (simp_all add: env_without_page_errors_def)
  show ?thesis
    unfolding runTest_def tryBlock_without_page_errors finalize_without_page_errors f ..
qed

lemma step_preserves:
  assumes push: "\<And>mk s. P s \<Longrightarrow> P (push E mk s)"
    and shot: "\<And>nm s. P s \<Longrightarrow> P (snd (screenshot E nm s))"
    and fail: "\<And>s. P s \<Longrightarrow> P (s\<lparr>status := FAIL\<rparr>)"
    and fn: "\<And>s. P s \<Longrightarrow> P (snd (fn s))"
    and s: "P s"
  shows "P (snd (step E nm fn s))"
proof -
  let ?s1 = "push E (StepStart nm) s"
  obtain r2 s2 where sh: "screenshot E (''before_'' @ nm) ?s1 = (r2, s2)"
    by (cases "screenshot E (''before_'' @ nm) ?s1")
  have "P ?s1" by (rule push [OF s])
  from shot [OF this] have s2: "P s2" using sh by (metis snd_conv)
  show ?thesis
  proof (cases r2)
    case (Some e)
    with sh s2 show ?thesis by (simp add: step_def Let_def)
  next
    case None
    obtain rb s3 where b: "fn s2 = (rb, s3)" by (cases "fn s2")
    have s3: "P s3" using fn [OF s2] b by simp
    show ?thesis
    proof (cases rb)
      case None': None
      let ?s4 = "push E (StepEnd nm) s3"
      obtain r5 s5 where a: "screenshot E (''after_'' @ nm) ?s4 = (r5, s5)"
        by (cases "screenshot E (''after_'' @ nm) ?s4")
      have "P ?s4" by (rule push [OF s3])
      from shot [OF this] have "P s5" using a by (metis snd_conv)
      moreover have "snd (step E nm fn s) = s5"
        using None None' sh b a by (cases r5) (simp_all add: step_def Let_def)
      ultimately show ?thesis by simp
    next
      case (Some e)
      let ?s4 = "push E (StepError nm (String_of e)) s3"
      obtain r5 s5 where oe: "screenshot E (''on_error_'' @ nm) ?s4 = (r5, s5)"
        by (cases "screenshot E (''on_error_'' @ nm) ?s4")
      have "P ?s4" by (rule push [OF s3])
      from shot [OF this] have s5: "P s5" using oe by (metis snd_conv)
      let ?s6 = "case r5 of None \<Rightarrow> s5\<lparr>status := FAIL\<rparr> | Some e' \<Rightarrow> s5"
      have s6: "P ?s6" using s5 fail [OF s5] by (cases r5) simp_all
      obtain r7 s7 where af: "screenshot E (''after_'' @ nm) ?s6 = (r7, s7)"
        by (cases "screenshot E (''after_'' @ nm) ?s6")
      from shot [OF s6] have "P s7" using af by (metis snd_conv)
      moreover have "snd (step E nm fn s) = s7"
        using None Some sh b oe af by (cases r5; cases r7) (simp_all add: step_def Let_def)
      ultimately show ?thesis by simp
    qed
  qed
qed

lemma console_errors_snoc:
  "console_errors (entries @ [(stamp, ty, txt)])
     = console_errors entries @ (if ty = ''error'' then [txt] else [])"
  by (simp add: console_errors_def)

lemma push_critical: "critical_is_console s \<Longrightarrow> critical_is_console (push E mk s)"
  by (simp add: critical_is_console_def push_def)

lemma screenshot_critical: "critical_is_console s \<Longrightarrow> critical_is_console (snd (screenshot E nm s))"
  by (simp add: critical_is_console_def screenshot_def push_def Let_def split: option.split)

lemma fail_critical: "critical_is_console s \<Longrightarrow> critical_is_console (s\<lparr>status := FAIL\<rparr>)"
  by (simp add: critical_is_console_def)

lemma dispatch_critical: "critical_is_console s \<Longrightarrow> critical_is_console (dispatch E ev s)"
  by (cases ev)
     (simp_all add: critical_is_console_def on_console_def on_requestfinished_def Let_def
        console_errors_snoc split: option.split)

lemma exec_critical:
  "critical_is_console s \<Longrightarrow> critical_is_console (snd (exec E c s))"
  "critical_is_console s \<Longrightarrow> critical_is_console (snd (execs E cs s))"
proof (induction E c s and E cs s rule: exec_execs.induct)
  case (1 E nm s)
  then show ?case by (simp add: screenshot_critical)
next
  case (2 E nm body s)
  show ?case
    using step_preserves [of critical_is_console E "\<lambda>s'. execs E body s'" s nm]
      push_critical screenshot_critical fail_critical 2
    by simp
next
  case (3 E e s)
  then show ?case by simp
next
  case (4 E body handler s)
  obtain r s1 where b: "execs E body s = (r, s1)" by (cases "execs E body s")
  with 4(1) [OF 4(3)] have s1: "critical_is_console s1" by simp
  show ?case
  proof (cases r)
    case None
    with b s1 show ?thesis by simp
  next
    case (Some e)
    from 4(2) [OF b [symmetric] Some s1] show ?thesis using b Some by simp
  qed
next
  case (5 E ev s)
  then show ?case by (simp add: dispatch_critical)
next
  case (6 E s)
  then show ?case by simp
next
  case (7 E c cs s)
  obtain r s1 where b: "exec E c s = (r, s1)" by (cases "exec E c s")
  with 7(1) [OF 7(3)] have s1: "critical_is_console s1" by simp
  show ?case
  proof (cases r)
    case None
    from 7(2) [OF b [symmetric] None s1] show ?thesis using b None by simp
  next
    case (Some e)
    with b s1 show ?thesis by simp
  qed
qed

text \<open>
  Claim C8, amended. The instrumentation attached before the script runs has no observer
  for uncaught errors of the page. The critical errors of a run that returns are exactly
  the texts of the console messages of type \<^verbatim>\<open>error\<close> that were written to
  \<^verbatim>\<open>console.log\<close>, in that order; an uncaught error of the page adds nothing to them,
  and a run goes exactly as it does when the page raises no uncaught error.
\<close>

theorem critical_errors_are_console_errors:
  "runTest (env_without_page_errors E) p = runTest E p
   \<and> (runTest E p = (Inr res, Some rep)
        \<longrightarrow> r_criticalErrors res = console_errors (consoleLog (final_state rep)))"
proof (intro conjI impI)
  show "runTest (env_without_page_errors E) p = runTest E p"
    by (rule runTest_without_page_errors)
next
  assume run: "runTest E p = (Inr res, Some rep)"
  obtain r h s1 where t: "tryBlock E p initial_state = (r, h, s1)" by (cases "tryBlock E p initial_state")
  let ?s2 = "case r of None \<Rightarrow> s1 | Some err \<Rightarrow> s1\<lparr>status := FAIL\<rparr>"
  from run t have rep: "final_state rep = ?s2" and res: "r_criticalErrors res = criticalErrors ?s2"
    by (auto simp: runTest_def Let_def split: if_splits option.splits)
  have "critical_is_console initial_state"
    by (simp add: critical_is_console_def initial_state_def console_errors_def)
  then have "critical_is_console s1"
    using tryBlock_state [of critical_is_console initial_state E p] t exec_critical(2) by simp
  then have "critical_is_console ?s2" by (cases r) (simp_all add: fail_critical)
  then show "r_criticalErrors res = console_errors (consoleLog (final_state rep))"
    using rep res by (simp add: critical_is_console_def)
qed

theorem critical_errors_are_console_errors_witness:
  "runTest (env_without_page_errors env_page_error) ''tests/example.spec.ts''
     = runTest env_page_error ''tests/example.spec.ts''
   \<and> (\<exists>res rep. runTest env_page_error ''tests/example.spec.ts'' = (Inr res, Some rep)
         \<and> r_criticalErrors res = console_errors (consoleLog (final_state rep))
         \<and> r_criticalErrors res = [''Failed to load resource''])"
proof -
  let ?R = "\<lparr>r_status = PASS, r_artifactsDir = ''runs/2025-07-31-22-35-15'',
            r_runId = ''2025-07-31-22-35-15'', r_criticalErrors = [''Failed to load resource'']\<rparr>"
  have v: "fst (runTest env_page_error ''tests/example.spec.ts'') = Inr ?R"
    by code_simp
  have "case snd (runTest env_page_error ''tests/example.spec.ts'') of None \<Rightarrow> False | Some rep \<Rightarrow> True"
    by code_simp
  then obtain rep where "snd (runTest env_page_error ''tests/example.spec.ts'') = Some rep"
    by (cases "snd (runTest env_page_error ''tests/example.spec.ts'')") simp_all
  with v have run: "runTest env_page_error ''tests/example.spec.ts'' = (Inr ?R, Some rep)"
    by (simp add: prod_eq_iff)
  note t = critical_errors_are_console_errors [of env_page_error "''tests/example.spec.ts''" ?R rep]
  from t have e: "runTest (env_without_page_errors env_page_error) ''tests/example.spec.ts''
     = runTest env_page_error ''tests/example.spec.ts''" by (rule conjunct1)
  from t run have c: "r_criticalErrors ?R = console_errors (consoleLog (final_state rep))"
    by (simp only: simp_thms)
  have l: "r_criticalErrors ?R = [''Failed to load resource'']" by simp
  from run c l have "\<exists>res rep. runTest env_page_error ''tests/example.spec.ts'' = (Inr res, Some rep)
         \<and> r_criticalErrors res = console_errors (consoleLog (final_state rep))
         \<and> r_criticalErrors res = [''Failed to load resource'']" by blast
  with e show ?thesis by (rule conjI)
qed

text \<open>
  As claim C8 is written, the uncaught error of the page would be in the list returned by
  the run \<open>env_page_error\<close>. The list holds the console error only.
\<close>

theorem page_error_missing_from_critical_errors_counterexample:
  "fst (runTest env_page_error ''tests/example.spec.ts'')
     = Inr \<lparr>r_status = PASS, r_artifactsDir = ''runs/2025-07-31-22-35-15'',
            r_runId = ''2025-07-31-22-35-15'', r_criticalErrors = [''Failed to load resource'']\<rparr>"
  by code_simp

end
